theory Spec2Isabelle
  imports Complex_Main
begin

section \<open>Python values: errors, strings, dictionaries, arrays\<close>

text \<open>
  The development embeds \<^verbatim>\<open>src/rateslib/fx.py\<close>. Every \<^verbatim>\<open>raise\<close> of the source
  and every failing subscript is a value \<open>Inl e\<close> of the result type.
\<close>

datatype value_error =
    Overspecified
  | Underspecified
  | SamePairs
  | NotInCurrencies string
  | UnexpectedCurrency string string
  | Broadcast

datatype py_error =
    ValueError value_error
  | KeyError string
  | IndexError
  | ZeroDivisionError
  | SolveFailure

definition ebind :: "py_error + 'a \<Rightarrow> ('a \<Rightarrow> py_error + 'b) \<Rightarrow> py_error + 'b" where
  "ebind m f = (case m of Inl e \<Rightarrow> Inl e | Inr v \<Rightarrow> f v)"

lemma ebind_cong [fundef_cong]:
  "m = m' \<Longrightarrow> (\<And>v. m' = Inr v \<Longrightarrow> f v = f' v) \<Longrightarrow> ebind m f = ebind m' f'"
  by (cases m') (simp_all add: ebind_def)

lemma ebind_Inl [simp]: "ebind (Inl e) f = Inl e"
  by (simp add: ebind_def)

lemma ebind_Inr [simp]: "ebind (Inr v) f = f v"
  by (simp add: ebind_def)

lemma ebind_eq_Inr: "ebind m f = Inr r \<longleftrightarrow> (\<exists>v. m = Inr v \<and> f v = Inr r)"
  by (cases m) simp_all

text \<open>
  \<^verbatim>\<open>str.lower()\<close> on strings of ASCII characters, the alphabet of currency codes: the
  letters \<open>A\<close> to \<open>Z\<close> go to \<open>a\<close> to \<open>z\<close> and every other character is kept. Python
  lowers a string by the rules of Unicode, which outside ASCII depend on the neighbours of
  a character and can change the length of the string; strings with such characters are
  outside this development.
\<close>

definition lower_char :: "char \<Rightarrow> char" where
  "lower_char c =
     (case map_of (zip ''ABCDEFGHIJKLMNOPQRSTUVWXYZ'' ''abcdefghijklmnopqrstuvwxyz'') c of
        None \<Rightarrow> c
      | Some l \<Rightarrow> l)"

definition lower :: "string \<Rightarrow> string" where
  "lower s = map lower_char s"

text \<open>
  A \<^verbatim>\<open>dict\<close> is an association list in insertion order. Storing under a key that is
  present replaces the value and keeps the key's position; a new key goes last.
\<close>

fun dict_set :: "('k \<times> 'v) list \<Rightarrow> 'k \<Rightarrow> 'v \<Rightarrow> ('k \<times> 'v) list" where
  "dict_set [] k v = [(k, v)]"
| "dict_set ((k', v') # d) k v =
     (if k' = k then (k', v) # d else (k', v') # dict_set d k v)"

definition getitem :: "(string \<times> 'v) list \<Rightarrow> string \<Rightarrow> py_error + 'v" where
  "getitem d k = (case map_of d k of None \<Rightarrow> Inl (KeyError k) | Some v \<Rightarrow> Inr v)"

text \<open>\<^verbatim>\<open>dict.fromkeys(xs)\<close>: the keys of \<open>xs\<close>, each at its first appearance.\<close>

definition dict_fromkeys :: "'a list \<Rightarrow> 'a list" where
  "dict_fromkeys xs = foldl (\<lambda>acc x. if x \<in> set acc then acc else acc @ [x]) [] xs"

text \<open>Subscripts of one- and two-dimensional arrays, out of range an \<^verbatim>\<open>IndexError\<close>.\<close>

definition index1 :: "'a list \<Rightarrow> nat \<Rightarrow> py_error + 'a" where
  "index1 xs i = (if i < length xs then Inr (xs ! i) else Inl IndexError)"

definition index2 :: "'a list list \<Rightarrow> nat \<Rightarrow> nat \<Rightarrow> py_error + 'a" where
  "index2 M i j = ebind (index1 M i) (\<lambda>row. index1 row j)"

definition setitem1 :: "'a list \<Rightarrow> nat \<Rightarrow> 'a \<Rightarrow> py_error + 'a list" where
  "setitem1 xs i v = (if i < length xs then Inr (xs[i := v]) else Inl IndexError)"

definition setitem2 :: "'a list list \<Rightarrow> nat \<Rightarrow> nat \<Rightarrow> 'a \<Rightarrow> py_error + 'a list list" where
  "setitem2 M i j v =
     (if i < length M \<and> j < length (M ! i) then Inr (M[i := (M ! i)[j := v]])
      else Inl IndexError)"

section \<open>Floats\<close>

text \<open>
  A Python float is an IEEE double. \<open>fl\<close> rounds a real number to the nearest double,
  a tie going to the even mantissa of 53 bits; the range of the exponent is not modelled,
  so overflow and subnormal numbers are outside. The functions of the cash positions take
  the rounding as their parameter \<open>rnd\<close>: with \<open>fl\<close> they compute as the program does,
  with the identity they compute in exact arithmetic. Everywhere else a float is read as
  the real number it stands for.
\<close>

definition round_even :: "real \<Rightarrow> int" where
  "round_even y =
     (let n = \<lfloor>y\<rfloor>; r = y - of_int n
      in if r < 1 / 2 then n else if 1 / 2 < r then n + 1 else if even n then n else n + 1)"

definition fl :: "real \<Rightarrow> real" where
  "fl x =
     (if x = 0 then 0
      else (let e = \<lfloor>log 2 \<bar>x\<bar>\<rfloor> - 52
            in of_int (round_even (x / 2 powr of_int e)) * 2 powr of_int e))"

section \<open>Dual numbers\<close>

text \<open>
  Modelled from the spec: the class \<^verbatim>\<open>Dual\<close> of \<^verbatim>\<open>rateslib.dual\<close> is imported by
  \<^verbatim>\<open>fx.py\<close> and is not part of the sources. The spec gives a first-order dual as a
  real value with an ordered mapping from variable names to partial derivatives, absent
  variables having derivative zero; the variables of a result are the union of the
  variables of the operands, and \<open>y.grad[v] = \<partial>f/\<partial>a \<sqdot> a.grad[v] + \<partial>f/\<partial>b \<sqdot> b.grad[v]\<close>.
  A plain float is the dual with no variables. Division by a dual whose real part is
  zero is a \<^verbatim>\<open>ZeroDivisionError\<close>. The operations \<open>dadd\<close>, \<open>dmul\<close> and \<open>ddiv\<close> are
  those of exact arithmetic: what is proved of them holds of the program up to the
  rounding of its doubles.
\<close>

datatype dual = Dual (dreal: real) (dgrad: "(string \<times> real) list")

definition dvars :: "dual \<Rightarrow> string list" where
  "dvars a = map fst (dgrad a)"

definition gradient :: "dual \<Rightarrow> string \<Rightarrow> real" where
  "gradient a k = (case map_of (dgrad a) k of None \<Rightarrow> 0 | Some g \<Rightarrow> g)"

definition const :: "real \<Rightarrow> dual" where
  "const c = Dual c []"

definition union_vars :: "dual \<Rightarrow> dual \<Rightarrow> string list" where
  "union_vars a b = dict_fromkeys (dvars a @ dvars b)"

definition dadd :: "dual \<Rightarrow> dual \<Rightarrow> dual" where
  "dadd a b =
     Dual (dreal a + dreal b)
          (map (\<lambda>k. (k, gradient a k + gradient b k)) (union_vars a b))"

definition dmul :: "dual \<Rightarrow> dual \<Rightarrow> dual" where
  "dmul a b =
     Dual (dreal a * dreal b)
          (map (\<lambda>k. (k, gradient a k * dreal b + dreal a * gradient b k)) (union_vars a b))"

definition ddiv :: "dual \<Rightarrow> dual \<Rightarrow> py_error + dual" where
  "ddiv a b =
     (if dreal b = 0 then Inl ZeroDivisionError
      else Inr (Dual (dreal a / dreal b)
             (map (\<lambda>k. (k, gradient a k / dreal b - dreal a * gradient b k / (dreal b)\<^sup>2))
                  (union_vars a b))))"

text \<open>
  Modelled from the spec: sum and product of duals with every arithmetic operation
  rounded by \<open>rnd\<close>, and a dual with each of its numbers rounded.
\<close>

definition dadd_r :: "(real \<Rightarrow> real) \<Rightarrow> dual \<Rightarrow> dual \<Rightarrow> dual" where
  "dadd_r rnd a b =
     Dual (rnd (dreal a + dreal b))
          (map (\<lambda>k. (k, rnd (gradient a k + gradient b k))) (union_vars a b))"

definition dmul_r :: "(real \<Rightarrow> real) \<Rightarrow> dual \<Rightarrow> dual \<Rightarrow> dual" where
  "dmul_r rnd a b =
     Dual (rnd (dreal a * dreal b))
          (map (\<lambda>k. (k, rnd (rnd (gradient a k * dreal b) + rnd (dreal a * gradient b k))))
               (union_vars a b))"

definition round_dual :: "(real \<Rightarrow> real) \<Rightarrow> dual \<Rightarrow> dual" where
  "round_dual rnd a = Dual (rnd (dreal a)) (map (\<lambda>(k, g). (k, rnd g)) (dgrad a))"

text \<open>Equality of duals: equal real parts and equal derivatives, absent ones being zero.\<close>

definition dual_eq :: "dual \<Rightarrow> dual \<Rightarrow> bool" where
  "dual_eq a b = (dreal a = dreal b \<and> list_all (\<lambda>k. gradient a k = gradient b k) (union_vars a b))"

text \<open>
  Modelled from the spec: \<^verbatim>\<open>dual_solve(A, b)\<close> of \<^verbatim>\<open>rateslib.dual\<close> is not part of the
  sources. It is a parameter of the constructor; the spec's contract is that a returned
  vector \<open>x\<close> satisfies \<open>A \<sqdot> x = b\<close> with the gradients carried along, and that a matrix it
  cannot solve is a failure.
\<close>

type_synonym solver = "dual list list \<Rightarrow> dual list \<Rightarrow> dual list option"

definition dot :: "dual list \<Rightarrow> dual list \<Rightarrow> dual" where
  "dot u x = foldr dadd (map2 dmul u x) (const 0)"

definition dual_solve_spec :: "solver \<Rightarrow> bool" where
  "dual_solve_spec solve =
     (\<forall>A b x. solve A b = Some x \<longrightarrow>
        length x = length b \<and> list_all2 (\<lambda>row bi. dual_eq (dot row x) bi) A b)"

section \<open>FXRates\<close>

type_synonym datetime = int

datatype pynum = PyFloat real | PyDual dual

record FXRates =
  ad :: nat
  settlement :: "datetime option"
  fx_rates :: "(string \<times> dual) list"
  pairs :: "string list"
  variables :: "string list"
  currencies :: "(string \<times> nat) list"
  currencies_list :: "string list"
  base :: string
  q :: nat
  fx_vector :: "dual list"
  fx_array :: "dual list list"

subsection \<open>The constructor\<close>

definition convert_dual :: "string \<Rightarrow> pynum \<Rightarrow> dual" where
  "convert_dual k v = (case v of PyDual d \<Rightarrow> d | PyFloat r \<Rightarrow> Dual r [(''fx_'' @ lower k, 1)])"

definition init_fx_rates :: "(string \<times> pynum) list \<Rightarrow> (string \<times> dual) list" where
  "init_fx_rates items = foldl (\<lambda>d (k, v). dict_set d (lower k) (convert_dual k v)) [] items"

definition currency_appearances :: "string list \<Rightarrow> string list" where
  "currency_appearances ps = map (take 3) ps @ map (\<lambda>p. take 3 (drop 3 p)) ps"

definition init_currencies_list :: "string list \<Rightarrow> string list" where
  "init_currencies_list ps = dict_fromkeys (currency_appearances ps)"

definition init_currencies :: "string list \<Rightarrow> (string \<times> nat) list" where
  "init_currencies ps = map (\<lambda>(i, k). (k, i)) (List.enumerate 0 (init_currencies_list ps))"

definition init_base :: "string \<Rightarrow> string list \<Rightarrow> string option \<Rightarrow> py_error + string" where
  "init_base default_base cl b =
     (case b of
        None \<Rightarrow> (if default_base \<in> set cl then Inr default_base else index1 cl 0)
      | Some s \<Rightarrow> Inr (lower s))"

fun init_system ::
  "(string \<times> nat) list \<Rightarrow> (string \<times> dual) list \<Rightarrow> (nat \<times> string) list \<Rightarrow>
   dual list list \<Rightarrow> dual list \<Rightarrow> py_error + (dual list list \<times> dual list)" where
  "init_system cs fx [] A b = Inr (A, b)"
| "init_system cs fx ((i, pair) # rest) A b =
     ebind (getitem cs (take 3 pair)) (\<lambda>domestic_idx.
     ebind (getitem cs (drop 3 pair)) (\<lambda>foreign_idx.
     ebind (setitem2 A (i + 1) domestic_idx (const (- 1))) (\<lambda>A1.
     ebind (getitem fx pair) (\<lambda>r.
     ebind (ddiv (const 1) r) (\<lambda>inv.
     ebind (setitem2 A1 (i + 1) foreign_idx inv) (\<lambda>A2.
     ebind (setitem1 b (i + 1) (const 0)) (\<lambda>b1.
     init_system cs fx rest A2 b1)))))))"

definition zeros :: "nat \<Rightarrow> dual list list" where
  "zeros n = replicate n (replicate n (const 0))"

definition eye :: "nat \<Rightarrow> dual list list" where
  "eye n = map (\<lambda>i. map (\<lambda>j. if i = j then const 1 else const 0) [0..<n]) [0..<n]"

definition index_pairs :: "nat \<Rightarrow> (nat \<times> nat) list" where
  "index_pairs n = concat (map (\<lambda>i. map (\<lambda>j. (i, j)) [i + 1..<n]) [0..<n])"

fun init_fx_array ::
  "dual list \<Rightarrow> (nat \<times> nat) list \<Rightarrow> dual list list \<Rightarrow> py_error + dual list list" where
  "init_fx_array x [] M = Inr M"
| "init_fx_array x ((i, j) # rest) M =
     ebind (index1 x j) (\<lambda>xj.
     ebind (index1 x i) (\<lambda>xi.
     ebind (ddiv xj xi) (\<lambda>u.
     ebind (ddiv xi xj) (\<lambda>l.
     ebind (setitem2 M i j u) (\<lambda>M1.
     ebind (setitem2 M1 j i l) (\<lambda>M2.
     init_fx_array x rest M2))))))"

text \<open>
  The second half of the constructor: the linear system, its solution and the array of
  cross rates.
\<close>

definition init_solve ::
  "solver \<Rightarrow> datetime option \<Rightarrow> (string \<times> dual) list \<Rightarrow> string \<Rightarrow> py_error + FXRates" where
  "init_solve dual_solve st fxr base' =
     (let ps = map fst fxr;
          cs = init_currencies ps;
          cl = map fst cs;
          n = length cs
      in ebind (setitem2 (zeros n) 0 0 (const 1)) (\<lambda>A0.
         ebind (init_system cs fxr (List.enumerate 0 ps) A0 (replicate n (const 1))) (\<lambda>(A, bv).
         case dual_solve A bv of
           None \<Rightarrow> Inl SolveFailure
         | Some x \<Rightarrow>
             ebind (init_fx_array x (index_pairs n) (eye n)) (\<lambda>arr.
             Inr \<lparr>ad = 1, settlement = st, fx_rates = fxr, pairs = ps,
                  variables = map (\<lambda>p. ''fx_'' @ p) ps, currencies = cs,
                  currencies_list = cl, base = base', q = n, fx_vector = x,
                  fx_array = arr\<rparr>))))"

definition FXRates_init ::
  "solver \<Rightarrow> string \<Rightarrow> (string \<times> pynum) list \<Rightarrow> datetime option \<Rightarrow> string option \<Rightarrow>
   py_error + FXRates" where
  "FXRates_init dual_solve default_base items st b =
     (let fxr = init_fx_rates items;
          ps = map fst fxr;
          cs = init_currencies ps;
          cl = map fst cs;
          n = length cs
      in ebind (init_base default_base cl b) (\<lambda>base'.
         if int (length ps) > int n - 1 then Inl (ValueError Overspecified)
         else if int (length ps) < int n - 1 then Inl (ValueError Underspecified)
         else init_solve dual_solve st fxr base'))"

subsection \<open>Rates and conversion\<close>

definition rate :: "FXRates \<Rightarrow> string \<Rightarrow> py_error + dual" where
  "rate self pair =
     (let domestic = lower (take 3 pair); foreign = lower (drop 3 pair)
      in ebind (getitem (currencies self) domestic) (\<lambda>i.
         ebind (getitem (currencies self) foreign) (\<lambda>j.
         index2 (fx_array self) i j)))"

datatype warning = UserWarning string

definition to_dual :: "pynum \<Rightarrow> dual" where
  "to_dual v = (case v of PyFloat r \<Rightarrow> const r | PyDual d \<Rightarrow> d)"

text \<open>
  The loop of \<^verbatim>\<open>convert\<close> over \<^verbatim>\<open>[domestic, foreign]\<close>: the first code that is not a
  key of \<^verbatim>\<open>currencies\<close> decides, by \<^verbatim>\<open>on_error\<close>, between returning \<^verbatim>\<open>None\<close> (with
  or without a warning) and raising. \<open>None\<close> here means that every code is known.
\<close>

fun convert_check ::
  "(string \<times> nat) list \<Rightarrow> string \<Rightarrow> string list \<Rightarrow> (py_error + warning list) option" where
  "convert_check cs on_error [] = None"
| "convert_check cs on_error (ccy # rest) =
     (if ccy \<notin> set (map fst cs) then
        (if on_error = ''ignore'' then Some (Inr [])
         else if on_error = ''warn'' then Some (Inr [UserWarning ccy])
         else Some (Inl (ValueError (NotInCurrencies ccy))))
      else convert_check cs on_error rest)"

definition convert ::
  "FXRates \<Rightarrow> pynum \<Rightarrow> string \<Rightarrow> string option \<Rightarrow> string \<Rightarrow>
   py_error + (warning list \<times> dual option)" where
  "convert self val domestic foreign on_error =
     (let foreign' = (case foreign of None \<Rightarrow> base self | Some f \<Rightarrow> lower f);
          domestic' = lower domestic
      in case convert_check (currencies self) on_error [domestic', foreign'] of
           Some (Inl e) \<Rightarrow> Inl e
         | Some (Inr ws) \<Rightarrow> Inr (ws, None)
         | None \<Rightarrow>
             ebind (getitem (currencies self) (lower domestic')) (\<lambda>i.
             ebind (getitem (currencies self) (lower foreign')) (\<lambda>j.
             ebind (index2 (fx_array self) i j) (\<lambda>r.
             Inr ([], Some (dmul (to_dual val) r))))))"

subsection \<open>Cash positions\<close>

text \<open>
  \<^verbatim>\<open>np.sum\<close> over an array of objects adds from the first element on; the elementwise
  product of two one-dimensional arrays needs equal lengths, or one of them of length one,
  which numpy stretches.
\<close>

definition np_sum :: "(real \<Rightarrow> real) \<Rightarrow> dual list \<Rightarrow> dual" where
  "np_sum rnd xs = (case xs of [] \<Rightarrow> const 0 | y # ys \<Rightarrow> foldl (dadd_r rnd) y ys)"

definition np_broadcast :: "('a \<Rightarrow> 'b \<Rightarrow> 'c) \<Rightarrow> 'a list \<Rightarrow> 'b list \<Rightarrow> py_error + 'c list" where
  "np_broadcast f xs ys =
     (if length xs = length ys then Inr (map2 f xs ys)
      else if length xs = 1 then Inr (map (f (hd xs)) ys)
      else if length ys = 1 then Inr (map (\<lambda>x. f x (hd ys)) xs)
      else Inl (ValueError Broadcast))"

fun column :: "'a list list \<Rightarrow> nat \<Rightarrow> py_error + 'a list" where
  "column [] j = Inr []"
| "column (row # rows) j =
     ebind (index1 row j) (\<lambda>v. ebind (column rows j) (\<lambda>vs. Inr (v # vs)))"

definition convert_positions ::
  "(real \<Rightarrow> real) \<Rightarrow> FXRates \<Rightarrow> real list \<Rightarrow> string option \<Rightarrow> py_error + dual" where
  "convert_positions rnd self array b =
     (let base' = (case b of None \<Rightarrow> base self | Some s \<Rightarrow> lower s)
      in ebind (getitem (currencies self) base') (\<lambda>j.
         ebind (column (fx_array self) j) (\<lambda>col.
         ebind (np_broadcast (\<lambda>a r. dmul_r rnd (const a) r) array col) (\<lambda>prods.
         Inr (np_sum rnd prods)))))"

text \<open>
  \<^verbatim>\<open>_get_positions_from_delta\<close>: a product and a quotient of floats. A quotient by zero
  is an error of the model.
\<close>

definition get_positions_from_delta ::
  "(real \<Rightarrow> real) \<Rightarrow> FXRates \<Rightarrow> real \<Rightarrow> string \<Rightarrow> string \<Rightarrow> py_error + real list" where
  "get_positions_from_delta rnd self delta pair base' =
     ebind (getitem (currencies self) base') (\<lambda>b_idx.
     (let domestic = take 3 pair; foreign = drop 3 pair
      in ebind (getitem (currencies self) domestic) (\<lambda>d_idx.
         ebind (getitem (currencies self) foreign) (\<lambda>f_idx.
         ebind (index2 (fx_array self) b_idx f_idx) (\<lambda>bf.
         (let f_val = rnd (delta * dreal bf)
          in ebind (setitem1 (replicate (q self) 0) d_idx f_val) (\<lambda>z1.
             ebind (index2 (fx_array self) f_idx d_idx) (\<lambda>fd.
             if dreal fd = 0 then Inl ZeroDivisionError
             else setitem1 z1 f_idx (rnd (- f_val / dreal fd))))))))))"

text \<open>
  The in-place sum \<^verbatim>\<open>_ += ...\<close> of two arrays of floats: the right operand has the
  length of the left one, or length one.
\<close>

definition np_iadd :: "(real \<Rightarrow> real) \<Rightarrow> real list \<Rightarrow> real list \<Rightarrow> py_error + real list" where
  "np_iadd rnd xs ys =
     (if length xs = length ys then Inr (map2 (\<lambda>x y. rnd (x + y)) xs ys)
      else if length ys = 1 then Inr (map (\<lambda>x. rnd (x + hd ys)) xs)
      else Inl (ValueError Broadcast))"

fun positions_loop ::
  "(real \<Rightarrow> real) \<Rightarrow> FXRates \<Rightarrow> dual \<Rightarrow> string \<Rightarrow> string list \<Rightarrow> real list \<Rightarrow>
   py_error + real list" where
  "positions_loop rnd self val base' [] acc = Inr acc"
| "positions_loop rnd self val base' (pair # rest) acc =
     (if take 3 pair = ''fx_'' then
        (let delta = gradient val pair
         in ebind (get_positions_from_delta rnd self delta (drop 3 pair) base') (\<lambda>ps.
            ebind (np_iadd rnd acc ps) (\<lambda>acc'.
            positions_loop rnd self val base' rest acc')))
      else positions_loop rnd self val base' rest acc)"

definition positions ::
  "(real \<Rightarrow> real) \<Rightarrow> FXRates \<Rightarrow> pynum \<Rightarrow> string option \<Rightarrow> py_error + real list" where
  "positions rnd self val b =
     (let v = to_dual val;
          base' = (case b of None \<Rightarrow> base self | Some s \<Rightarrow> lower s);
          seed = map (\<lambda>ccy. if ccy \<noteq> base' then 0 else dreal v) (currencies_list self)
      in positions_loop rnd self v base' (dvars v) seed)"

text \<open>
  The numbers that an \<^verbatim>\<open>FXRates\<close> stores, in double precision. An entry of
  \<^verbatim>\<open>fx_array\<close> is one quotient \<^verbatim>\<open>x[j] / x[i]\<close>; when the entries of \<open>x\<close> are doubles,
  the double that the division returns is the exact quotient rounded, which is the real
  part here. The derivatives are rounded likewise.
\<close>

definition in_doubles :: "FXRates \<Rightarrow> FXRates" where
  "in_doubles self =
     self\<lparr>fx_rates := map (\<lambda>(k, d). (k, round_dual fl d)) (fx_rates self),
          fx_vector := map (round_dual fl) (fx_vector self),
          fx_array := map (map (round_dual fl)) (fx_array self)\<rparr>"

subsection \<open>Update, copy and restate\<close>

definition lower_keys :: "(string \<times> 'v) list \<Rightarrow> (string \<times> 'v) list" where
  "lower_keys items = foldl (\<lambda>d (k, v). dict_set d (lower k) v) [] items"

fun update_items ::
  "(string \<times> dual) list \<Rightarrow> (string \<times> pynum) list \<Rightarrow> string list \<Rightarrow>
   (string \<times> pynum) list \<Rightarrow> py_error + (string \<times> pynum) list" where
  "update_items old new [] acc = Inr acc"
| "update_items old new (pair # rest) acc =
     ebind (if pair \<notin> set (map fst new)
            then ebind (getitem old pair) (\<lambda>r. Inr (PyFloat (dreal r)))
            else getitem new pair) (\<lambda>v.
     update_items old new rest (dict_set acc pair v))"

definition update ::
  "solver \<Rightarrow> string \<Rightarrow> FXRates \<Rightarrow> (string \<times> pynum) list \<Rightarrow> py_error + FXRates" where
  "update dual_solve default_base self items =
     (let fx_rates' = lower_keys items;
          pairs' = map fst fx_rates'
      in if length (filter (\<lambda>p. p \<notin> set (pairs self)) (remdups pairs')) \<noteq> 0
         then Inl (ValueError SamePairs)
         else
           ebind (update_items (fx_rates self) fx_rates' (pairs self) []) (\<lambda>fx_rates''.
           ebind (FXRates_init dual_solve default_base fx_rates'' (settlement self)
                    (Some (base self))) (\<lambda>new.
           Inr (self\<lparr>fx_rates := fx_rates new, fx_vector := fx_vector new,
                      fx_array := fx_array new\<rparr>))))"




section \<open>FXForwards\<close>





section \<open>A worked market\<close>

text \<open>
  The market \<^verbatim>\<open>FXRates({"usdnok": 8.0})\<close> of the docstrings. The solver used for it
  returns a proposed vector when that vector solves the system and fails otherwise, so
  it meets the contract \<open>dual_solve_spec\<close> on every input.
\<close>

definition checking_solver :: "dual list \<Rightarrow> solver" where
  "checking_solver cand A b =
     (if length cand = length b \<and> list_all2 (\<lambda>row bi. dual_eq (dot row cand) bi) A b
      then Some cand else None)"

definition usdnok_solver :: solver where
  "usdnok_solver = checking_solver [const 1, Dual 8 [(''fx_usdnok'', 1)]]"

definition usdnok :: FXRates where
  "usdnok =
     \<lparr>ad = 1, settlement = None,
      fx_rates = [(''usdnok'', Dual 8 [(''fx_usdnok'', 1)])],
      pairs = [''usdnok''], variables = [''fx_usdnok''],
      currencies = [(''usd'', 0), (''nok'', 1)],
      currencies_list = [''usd'', ''nok''], base = ''usd'', q = 2,
      fx_vector = [Dual 1 [], Dual 8 [(''fx_usdnok'', 1)]],
      fx_array =
        [[Dual 1 [], Dual 8 [(''fx_usdnok'', 1)]],
         [Dual (1 / 8) [(''fx_usdnok'', - (1 / 64))], Dual 1 []]]\<rparr>"

section \<open>Vocabulary of the specification\<close>

text \<open>The position at which a key first appears in a list.\<close>

definition first_index :: "'a list \<Rightarrow> 'a \<Rightarrow> nat" where
  "first_index xs a = length (takeWhile (\<lambda>y. y \<noteq> a) xs)"

text \<open>
  The order of currencies in the words of the specification: the pair list is walked
  pair by pair, the domestic currency of a pair is inserted and then its foreign one.
\<close>

definition spec_currencies_list :: "string list \<Rightarrow> string list" where
  "spec_currencies_list ps =
     dict_fromkeys (concat (map (\<lambda>p. [take 3 p, take 3 (drop 3 p)]) ps))"

text \<open>The dual that the constructor stores for a key that is already lower case.\<close>

definition wrap_dual :: "string \<Rightarrow> pynum \<Rightarrow> dual" where
  "wrap_dual k v = (case v of PyDual d \<Rightarrow> d | PyFloat r \<Rightarrow> Dual r [(''fx_'' @ k, 1)])"

text \<open>
  The market of the class docstring,
  \<^verbatim>\<open>FXRates({"eurusd": 1.1, "gbpusd": 1.25, "usdjpy": 100})\<close>, with the vector that solves
  its system.
\<close>

definition eurgbpjpy_items :: "(string \<times> pynum) list" where
  "eurgbpjpy_items = [(''eurusd'', PyFloat 1.1), (''gbpusd'', PyFloat 1.25), (''usdjpy'', PyFloat 100)]"

definition eurgbpjpy_solver :: solver where
  "eurgbpjpy_solver =
     checking_solver
       [const 1,
        Dual 0.88 [(''fx_eurusd'', 0.8), (''fx_gbpusd'', - 0.704)],
        Dual 1.1 [(''fx_eurusd'', 1)],
        Dual 110 [(''fx_eurusd'', 100), (''fx_usdjpy'', 1.1)]]"

text \<open>The keys of \<^verbatim>\<open>self.fx_rates\<close>, which the constructor stores as \<^verbatim>\<open>self.pairs\<close>.\<close>

definition init_pairs :: "(string \<times> pynum) list \<Rightarrow> string list" where
  "init_pairs items = map fst (init_fx_rates items)"

text \<open>
  The market of the docstring of \<^verbatim>\<open>update\<close>,
  \<^verbatim>\<open>FXRates({"usdeur": 0.9, "eurnok": 8.5})\<close>, and the same object after
  \<^verbatim>\<open>update({"usdeur": 1.0})\<close>.
\<close>

definition usdeurnok_solver :: solver where
  "usdeurnok_solver =
     checking_solver
       [const 1, Dual 0.9 [(''fx_usdeur'', 1)],
        Dual 7.65 [(''fx_usdeur'', 8.5), (''fx_eurnok'', 0.9)]]"

definition usdeurnok :: FXRates where
  "usdeurnok =
     \<lparr>ad = 1, settlement = None,
      fx_rates = [(''usdeur'', Dual 0.9 [(''fx_usdeur'', 1)]),
                  (''eurnok'', Dual 8.5 [(''fx_eurnok'', 1)])],
      pairs = [''usdeur'', ''eurnok''],
      variables = [''fx_usdeur'', ''fx_eurnok''],
      currencies = [(''usd'', 0), (''eur'', 1), (''nok'', 2)],
      currencies_list = [''usd'', ''eur'', ''nok''], base = ''usd'', q = 3,
      fx_vector =
        [Dual 1 [], Dual 0.9 [(''fx_usdeur'', 1)],
         Dual 7.65 [(''fx_usdeur'', 8.5), (''fx_eurnok'', 0.9)]],
      fx_array =
        [[Dual 1 [], Dual 0.9 [(''fx_usdeur'', 1)],
          Dual 7.65 [(''fx_usdeur'', 8.5), (''fx_eurnok'', 0.9)]],
         [Dual (10 / 9) [(''fx_usdeur'', - (100 / 81))], Dual 1 [],
          Dual 8.5 [(''fx_usdeur'', 0), (''fx_eurnok'', 1)]],
         [Dual (20 / 153) [(''fx_usdeur'', - (200 / 1377)), (''fx_eurnok'', - (40 / 2601))],
          Dual (2 / 17) [(''fx_usdeur'', 0), (''fx_eurnok'', - (4 / 289))],
          Dual 1 []]]\<rparr>"

definition usdeurnok_update_solver :: solver where
  "usdeurnok_update_solver =
     checking_solver
       [const 1, Dual 1 [(''fx_usdeur'', 1)],
        Dual 8.5 [(''fx_usdeur'', 8.5), (''fx_eurnok'', 1)]]"

definition usdeurnok_updated :: FXRates where
  "usdeurnok_updated =
     usdeurnok
     \<lparr>fx_rates := [(''usdeur'', Dual 1 [(''fx_usdeur'', 1)]),
                   (''eurnok'', Dual 8.5 [(''fx_eurnok'', 1)])],
      fx_vector :=
        [Dual 1 [], Dual 1 [(''fx_usdeur'', 1)],
         Dual 8.5 [(''fx_usdeur'', 8.5), (''fx_eurnok'', 1)]],
      fx_array :=
        [[Dual 1 [], Dual 1 [(''fx_usdeur'', 1)],
          Dual 8.5 [(''fx_usdeur'', 8.5), (''fx_eurnok'', 1)]],
         [Dual 1 [(''fx_usdeur'', - 1)], Dual 1 [],
          Dual 8.5 [(''fx_usdeur'', 0), (''fx_eurnok'', 1)]],
         [Dual (2 / 17) [(''fx_usdeur'', - (2 / 17)), (''fx_eurnok'', - (4 / 289))],
          Dual (2 / 17) [(''fx_usdeur'', 0), (''fx_eurnok'', - (4 / 289))],
          Dual 1 []]]\<rparr>"

text \<open>A square array with \<open>n\<close> rows of length \<open>n\<close>.\<close>

definition rect :: "nat \<Rightarrow> 'a list list \<Rightarrow> bool" where
  "rect n M = (length M = n \<and> (\<forall>i<n. length (M ! i) = n))"

text \<open>
  \<open>is_quotient e u v\<close>: the dual \<open>e\<close> has the real part and the derivatives of the
  quotient \<open>u / v\<close>.
\<close>

definition is_quotient :: "dual \<Rightarrow> dual \<Rightarrow> dual \<Rightarrow> bool" where
  "is_quotient e u v =
     (dreal v \<noteq> 0 \<and> dreal e = dreal u / dreal v \<and>
      (\<forall>k. gradient e k = gradient u k / dreal v - dreal u * gradient v k / (dreal v)\<^sup>2))"

text \<open>The sum of the positions \<open>P\<close> weighted by the coefficients \<open>c\<close>.\<close>

definition weighted :: "real list \<Rightarrow> real list \<Rightarrow> real" where
  "weighted c P = sum_list (map2 (*) P c)"













text \<open>
  The market \<^verbatim>\<open>FXRates({"usdeur": 1.5, "usdnok": 75.0})\<close>. Its rates are doubles and so
  are the entries \<open>1\<close>, \<open>1.5\<close> and \<open>75\<close> of the vector that solves its system.
\<close>

definition usdeur_usdnok_solver :: solver where
  "usdeur_usdnok_solver =
     checking_solver [const 1, Dual 1.5 [(''fx_usdeur'', 1)], Dual 75 [(''fx_usdnok'', 1)]]"

definition usdeur_usdnok :: FXRates where
  "usdeur_usdnok =
     \<lparr>ad = 1, settlement = None,
      fx_rates = [(''usdeur'', Dual (3 / 2) [(''fx_usdeur'', 1)]),
                  (''usdnok'', Dual 75 [(''fx_usdnok'', 1)])],
      pairs = [''usdeur'', ''usdnok''],
      variables = [''fx_usdeur'', ''fx_usdnok''],
      currencies = [(''usd'', 0), (''eur'', 1), (''nok'', 2)],
      currencies_list = [''usd'', ''eur'', ''nok''], base = ''usd'', q = 3,
      fx_vector =
        [Dual 1 [], Dual (3 / 2) [(''fx_usdeur'', 1)], Dual 75 [(''fx_usdnok'', 1)]],
      fx_array =
        [[Dual 1 [], Dual (3 / 2) [(''fx_usdeur'', 1)], Dual 75 [(''fx_usdnok'', 1)]],
         [Dual (2 / 3) [(''fx_usdeur'', - (4 / 9))], Dual 1 [],
          Dual 50 [(''fx_usdnok'', 2 / 3), (''fx_usdeur'', - (100 / 3))]],
         [Dual (1 / 75) [(''fx_usdnok'', - (1 / 5625))],
          Dual (1 / 50) [(''fx_usdeur'', 1 / 75), (''fx_usdnok'', - (1 / 3750))],
          Dual 1 []]]\<rparr>"

text \<open>
  The market \<^verbatim>\<open>FXRates({"usdnok": Dual(8.0, "z", [1.0])})\<close>, whose rate is a dual in a
  variable of another name; the constructor stores a dual as it is passed.
\<close>

definition usdnok_z_solver :: solver where
  "usdnok_z_solver = checking_solver [const 1, Dual 8 [(''z'', 1)]]"

definition usdnok_z :: FXRates where
  "usdnok_z =
     \<lparr>ad = 1, settlement = None,
      fx_rates = [(''usdnok'', Dual 8 [(''z'', 1)])],
      pairs = [''usdnok''], variables = [''fx_usdnok''],
      currencies = [(''usd'', 0), (''nok'', 1)],
      currencies_list = [''usd'', ''nok''], base = ''usd'', q = 2,
      fx_vector = [Dual 1 [], Dual 8 [(''z'', 1)]],
      fx_array =
        [[Dual 1 [], Dual 8 [(''z'', 1)]],
         [Dual (1 / 8) [(''z'', - (1 / 64))], Dual 1 []]]\<rparr>"

section \<open>Basic facts\<close>

lemmas eval_defs =
  FXRates_init_def init_solve_def init_fx_rates_def lower_def lower_char_def convert_dual_def
  init_currencies_def init_currencies_list_def currency_appearances_def dict_fromkeys_def
  init_base_def index1_def index2_def setitem2_def setitem1_def zeros_def eye_def
  index_pairs_def getitem_def ddiv_def const_def checking_solver_def dual_eq_def dot_def
  dadd_def dmul_def gradient_def union_vars_def dvars_def upt_rec numeral_2_eq_2
  numeral_3_eq_3 Let_def lower_keys_def to_dual_def init_pairs_def

lemma checking_solver_spec: "dual_solve_spec (checking_solver cand)"
  by (simp add: dual_solve_spec_def checking_solver_def split: if_splits)

lemma usdnok_solver_spec: "dual_solve_spec usdnok_solver"
  by (simp add: usdnok_solver_def checking_solver_spec)

lemma FXRates_init_usdnok:
  "FXRates_init usdnok_solver ''usd'' [(''usdnok'', PyFloat 8)] None None = Inr usdnok"
  by (simp add: usdnok_solver_def usdnok_def eval_defs)

subsection \<open>Lower case\<close>

lemma lower_char_idem: "lower_char (lower_char c) = lower_char c"
  by (auto simp: lower_char_def split: option.splits)

lemma lower_idem [simp]: "lower (lower s) = lower s"
  by (simp add: lower_def lower_char_idem)

lemma lower_take: "lower (take n s) = take n (lower s)"
  by (simp add: lower_def take_map)

lemma lower_drop: "lower (drop n s) = drop n (lower s)"
  by (simp add: lower_def drop_map)

lemma lower_append: "lower (s @ t) = lower s @ lower t"
  by (simp add: lower_def)

subsection \<open>Dictionaries\<close>

lemma dict_set_new: "k \<notin> fst ` set d \<Longrightarrow> dict_set d k v = d @ [(k, v)]"
  by (induction d) auto

lemma map_of_dict_set: "map_of (dict_set d k v) = (map_of d)(k \<mapsto> v)"
  by (induction d) (auto simp: fun_eq_iff)

lemma dict_set_map_values:
  "dict_set (map (\<lambda>(k, v). (k, h k v)) d) k' (h k' v') = map (\<lambda>(k, v). (k, h k v)) (dict_set d k' v')"
  by (induction d) auto

lemma dict_fromkeys_Nil [simp]: "dict_fromkeys [] = []"
  by (simp add: dict_fromkeys_def)

lemma dict_fromkeys_snoc:
  "dict_fromkeys (xs @ [x]) =
     (if x \<in> set (dict_fromkeys xs) then dict_fromkeys xs else dict_fromkeys xs @ [x])"
  by (simp add: dict_fromkeys_def)

lemma set_dict_fromkeys [simp]: "set (dict_fromkeys xs) = set xs"
  by (induction xs rule: rev_induct) (auto simp: dict_fromkeys_snoc)

lemma distinct_dict_fromkeys [simp]: "distinct (dict_fromkeys xs)"
  by (induction xs rule: rev_induct) (auto simp: dict_fromkeys_snoc)

lemma getitem_Inr_iff: "getitem d k = Inr v \<longleftrightarrow> map_of d k = Some v"
  by (simp add: getitem_def split: option.splits)

lemma dict_set_keys:
  "map fst (dict_set d k v) = (if k \<in> fst ` set d then map fst d else map fst d @ [k])"
proof (induction d)
  case Nil
  then show ?case by simp
next
  case (Cons p d)
  then show ?case by (cases p) (auto simp: image_iff)
qed

lemma getitem_Inl_iff: "getitem d k = Inl e \<longleftrightarrow> k \<notin> fst ` set d \<and> e = KeyError k"
proof (cases "map_of d k")
  case None
  then have "k \<notin> fst ` set d" by (simp add: map_of_eq_None_iff)
  with None show ?thesis by (auto simp: getitem_def)
next
  case (Some a)
  then have "k \<in> fst ` set d" by (metis map_of_eq_None_iff option.distinct(1))
  with Some show ?thesis by (simp add: getitem_def)
qed

lemma lower_keys_snoc:
  "lower_keys (items @ [(k, v)]) = dict_set (lower_keys items) (lower k) v"
  by (simp add: lower_keys_def)

lemma init_fx_rates_snoc:
  "init_fx_rates (items @ [(k, v)]) = dict_set (init_fx_rates items) (lower k) (convert_dual k v)"
  by (simp add: init_fx_rates_def)

lemma convert_dual_wrap: "convert_dual k v = wrap_dual (lower k) v"
  by (simp add: convert_dual_def wrap_dual_def)

lemma init_fx_rates_lower_keys:
  "init_fx_rates items = map (\<lambda>(k, v). (k, wrap_dual k v)) (lower_keys items)"
proof (induction items rule: rev_induct)
  case Nil
  then show ?case by (simp add: init_fx_rates_def lower_keys_def)
next
  case (snoc kv items)
  obtain k v where kv: "kv = (k, v)" by (cases kv)
  show ?case
    unfolding kv init_fx_rates_snoc lower_keys_snoc snoc.IH convert_dual_wrap
    by (rule dict_set_map_values)
qed

lemma lower_keys_keys_lower: "k \<in> fst ` set (lower_keys items) \<Longrightarrow> lower k = k"
proof (induction items arbitrary: k rule: rev_induct)
  case Nil
  then show ?case by (simp add: lower_keys_def)
next
  case (snoc kv items)
  obtain k' v where kv: "kv = (k', v)" by (cases kv)
  have "k \<in> set (map fst (lower_keys (items @ [kv])))" using snoc.prems by simp
  then have "k \<in> fst ` set (lower_keys items) \<or> k = lower k'"
    unfolding kv lower_keys_snoc dict_set_keys by (auto split: if_splits)
  then show ?case using snoc.IH by auto
qed

lemma lower_keys_distinct: "distinct (map fst (lower_keys items))"
proof (induction items rule: rev_induct)
  case Nil
  then show ?case by (simp add: lower_keys_def)
next
  case (snoc kv items)
  obtain k' v where kv: "kv = (k', v)" by (cases kv)
  show ?case unfolding kv lower_keys_snoc dict_set_keys using snoc.IH by auto
qed

lemma lower_keys_fixed:
  "distinct (map fst d) \<Longrightarrow> (\<forall>k \<in> fst ` set d. lower k = k) \<Longrightarrow> lower_keys d = d"
proof (induction d rule: rev_induct)
  case Nil
  then show ?case by (simp add: lower_keys_def)
next
  case (snoc kv d)
  obtain k v where kv: "kv = (k, v)" by (cases kv)
  have d: "lower_keys d = d" using snoc by auto
  have k: "lower k = k" using snoc.prems(2) kv by auto
  have "k \<notin> fst ` set d" using snoc.prems(1) kv by auto
  then show ?case unfolding kv lower_keys_snoc d k by (rule dict_set_new)
qed

lemma lower_keys_idem: "lower_keys (lower_keys items) = lower_keys items"
  by (rule lower_keys_fixed) (auto simp: lower_keys_distinct lower_keys_keys_lower)

lemma init_fx_rates_lower_keys_idem: "init_fx_rates (lower_keys items) = init_fx_rates items"
  by (simp add: init_fx_rates_lower_keys lower_keys_idem)

lemma init_base_lower: "init_base dflt cl (map_option lower b) = init_base dflt cl b"
  by (cases b) (simp_all add: init_base_def)

lemma FXRates_init_lower:
  "FXRates_init solve dflt (lower_keys items) st (map_option lower b) = FXRates_init solve dflt items st b"
  by (simp add: FXRates_init_def init_fx_rates_lower_keys_idem init_base_lower)

lemma rate_lower: "rate self (lower P) = rate self P"
  by (simp add: rate_def lower_take [symmetric] lower_drop [symmetric])

lemma convert_lower: "convert self v (lower d) (map_option lower f) oe = convert self v d f oe"
  by (cases f) (simp_all add: convert_def)

lemma first_index_Nil [simp]: "first_index [] a = 0"
  by (simp add: first_index_def)

lemma first_index_Cons [simp]:
  "first_index (x # xs) a = (if x = a then 0 else Suc (first_index xs a))"
  by (simp add: first_index_def)

lemma first_index_append:
  "first_index (xs @ ys) a = (if a \<in> set xs then first_index xs a else length xs + first_index ys a)"
  by (induction xs) auto

lemma first_index_less: "a \<in> set xs \<Longrightarrow> first_index xs a < length xs"
  by (induction xs) auto

lemma first_index_nth: "a \<in> set xs \<Longrightarrow> xs ! first_index xs a = a"
  by (induction xs) auto

lemma first_index_dict_fromkeys:
  "a \<in> set xs \<Longrightarrow> b \<in> set xs \<Longrightarrow>
   (first_index (dict_fromkeys xs) a < first_index (dict_fromkeys xs) b) =
   (first_index xs a < first_index xs b)"
proof (induction xs rule: rev_induct)
  case Nil
  then show ?case by simp
next
  case (snoc x xs)
  show ?case
  proof (cases "x \<in> set xs")
    case True
    then have "a \<in> set xs" "b \<in> set xs" using snoc.prems by auto
    then show ?thesis using snoc.IH True
      by (simp add: dict_fromkeys_snoc first_index_append)
  next
    case False
    have len: "\<And>c. c \<in> set xs \<Longrightarrow> first_index (dict_fromkeys xs) c < length (dict_fromkeys xs)"
      by (simp add: first_index_less)
    have len': "\<And>c. c \<in> set xs \<Longrightarrow> first_index xs c < length xs"
      by (simp add: first_index_less)
    show ?thesis
    proof (cases "a \<in> set xs")
      case a: True
      show ?thesis
      proof (cases "b \<in> set xs")
        case True
        then show ?thesis using a snoc.IH False
          by (simp add: dict_fromkeys_snoc first_index_append)
      next
        case b: False
        then have "b = x" using snoc.prems by auto
        then show ?thesis using a b False len [OF a] len' [OF a]
          by (simp add: dict_fromkeys_snoc first_index_append)
      qed
    next
      case a: False
      then have ax: "a = x" using snoc.prems by auto
      show ?thesis
      proof (cases "b \<in> set xs")
        case True
        then show ?thesis using a ax False len [OF True] len' [OF True]
          by (simp add: dict_fromkeys_snoc first_index_append)
      next
        case b: False
        then have "b = x" using snoc.prems by auto
        then show ?thesis using ax by simp
      qed
    qed
  qed
qed

lemma map_of_enumerate_swap:
  "map_of (map (\<lambda>(i, k). (k, i)) (List.enumerate n xs)) c =
     (if c \<in> set xs then Some (n + first_index xs c) else None)"
proof (induction xs arbitrary: n)
  case Nil
  then show ?case by simp
next
  case (Cons x xs)
  then show ?case by auto
qed

lemma map_fst_init_currencies [simp]: "map fst (init_currencies ps) = init_currencies_list ps"
proof -
  have "\<And>n xs. map fst (map (\<lambda>(i, k). (k, i)) (List.enumerate n xs)) = (xs :: string list)"
    subgoal for n xs by (induction xs arbitrary: n) auto
    done
  then show ?thesis by (simp add: init_currencies_def)
qed

lemma length_init_currencies [simp]: "length (init_currencies ps) = length (init_currencies_list ps)"
  by (simp add: init_currencies_def)

lemma FXRates_init_Inr:
  assumes "FXRates_init solve dflt items st b = Inr fxr"
  shows "fx_rates fxr = init_fx_rates items"
    and "pairs fxr = map fst (init_fx_rates items)"
    and "currencies fxr = init_currencies (pairs fxr)"
    and "currencies_list fxr = init_currencies_list (pairs fxr)"
    and "q fxr = length (currencies_list fxr)"
    and "settlement fxr = st"
    and "ad fxr = 1"
    and "variables fxr = map (\<lambda>p. ''fx_'' @ p) (pairs fxr)"
    and "init_base dflt (currencies_list fxr) b = Inr (base fxr)"
    and "int (length (pairs fxr)) = int (q fxr) - 1"
    and "\<exists>A0 A bv. setitem2 (zeros (q fxr)) 0 0 (const 1) = Inr A0 \<and>
           init_system (currencies fxr) (fx_rates fxr) (List.enumerate 0 (pairs fxr)) A0
             (replicate (q fxr) (const 1)) = Inr (A, bv) \<and>
           solve A bv = Some (fx_vector fxr) \<and>
           init_fx_array (fx_vector fxr) (index_pairs (q fxr)) (eye (q fxr)) = Inr (fx_array fxr)"
  using assms unfolding FXRates_init_def init_solve_def Let_def
  by (auto simp: ebind_eq_Inr split: if_splits option.splits prod.splits)

lemma init_system_no_ValueError: "init_system cs fx l A b \<noteq> Inl (ValueError v)"
proof (induction l arbitrary: A b)
  case Nil
  then show ?case by simp
next
  case (Cons ip l)
  obtain i p where ip: "ip = (i, p)" by (cases ip)
  show ?case unfolding ip using Cons.IH
    by (auto simp: ebind_def getitem_def setitem2_def setitem1_def ddiv_def
        split: sum.splits option.splits if_splits)
qed

lemma init_fx_array_no_ValueError: "init_fx_array x l M \<noteq> Inl (ValueError v)"
proof (induction l arbitrary: M)
  case Nil
  then show ?case by simp
next
  case (Cons ij l)
  obtain i j where ij: "ij = (i, j)" by (cases ij)
  show ?case unfolding ij using Cons.IH
    by (auto simp: ebind_def index1_def setitem2_def ddiv_def
        split: sum.splits option.splits if_splits)
qed

lemma init_solve_no_ValueError: "init_solve solve st fxr bs \<noteq> Inl (ValueError v)"
  unfolding init_solve_def Let_def
  using init_system_no_ValueError init_fx_array_no_ValueError
  by (auto simp: ebind_def setitem2_def split: sum.splits option.splits if_splits prod.splits)

lemma dict_set_nonempty: "dict_set d k v \<noteq> []"
  by (cases d) (auto split: if_splits)

lemma lower_keys_nonempty: "items \<noteq> [] \<Longrightarrow> lower_keys items \<noteq> []"
proof (cases items rule: rev_cases)
  case Nil
  assume "items \<noteq> []"
  with Nil show ?thesis by simp
next
  case (snoc ys y)
  obtain k v where "y = (k, v)" by (cases y)
  with snoc show ?thesis
    by (simp add: lower_keys_snoc dict_set_nonempty)
qed

lemma init_pairs_nonempty: "items \<noteq> [] \<Longrightarrow> init_pairs items \<noteq> []"
  by (simp add: init_pairs_def init_fx_rates_lower_keys lower_keys_nonempty)

lemma init_currencies_list_nonempty: "ps \<noteq> [] \<Longrightarrow> init_currencies_list ps \<noteq> []"
proof -
  assume "ps \<noteq> []"
  then have "set (init_currencies_list ps) \<noteq> {}"
    by (simp add: init_currencies_list_def currency_appearances_def)
  then show ?thesis by auto
qed

lemma init_base_resolved:
  assumes "items \<noteq> [] \<or> b \<noteq> None"
  shows "\<exists>bs. init_base dflt (init_currencies_list (init_pairs items)) b = Inr bs"
proof (cases b)
  case None
  then have "init_currencies_list (init_pairs items) \<noteq> []"
    using assms by (simp add: init_pairs_nonempty init_currencies_list_nonempty)
  then show ?thesis using None by (simp add: init_base_def index1_def)
next
  case (Some s)
  then show ?thesis by (simp add: init_base_def)
qed

lemma FXRates_init_usdeurnok:
  "FXRates_init usdeurnok_solver ''usd'' [(''usdeur'', PyFloat 0.9), (''eurnok'', PyFloat 8.5)] None None
     = Inr usdeurnok"
  by (simp add: usdeurnok_solver_def usdeurnok_def eval_defs)

lemma update_usdeurnok:
  "update usdeurnok_update_solver ''usd'' usdeurnok [(''usdeur'', PyFloat 1)] = Inr usdeurnok_updated"
  by (simp add: usdeurnok_update_solver_def usdeurnok_updated_def usdeurnok_def update_def eval_defs)

lemma update_items_no_ValueError: "update_items old new ps acc \<noteq> Inl (ValueError v)"
proof (induction ps arbitrary: acc)
  case Nil
  then show ?case by simp
next
  case (Cons p ps)
  show ?case using Cons.IH
    by (auto simp: ebind_def getitem_def split: sum.splits option.splits if_splits)
qed

lemma FXRates_init_not_SamePairs: "FXRates_init solve dflt items st b \<noteq> Inl (ValueError SamePairs)"
  unfolding FXRates_init_def Let_def
  using init_solve_no_ValueError
  by (auto simp: ebind_def init_base_def index1_def split: sum.splits option.splits if_splits)

lemma update_check_iff:
  "(length (filter (\<lambda>p. p \<notin> set (pairs self)) (remdups ps)) \<noteq> 0) = (\<not> set ps \<subseteq> set (pairs self))"
  by (auto simp: filter_empty_conv)

lemma update_items_map_of:
  "update_items old new ps acc = Inr merged \<Longrightarrow>
   map_of merged p =
     (if p \<in> set ps
      then (if p \<in> fst ` set new then map_of new p
            else map_option (\<lambda>r. PyFloat (dreal r)) (map_of old p))
      else map_of acc p)"
proof (induction ps arbitrary: acc)
  case Nil
  then show ?case by simp
next
  case (Cons a ps)
  from Cons.prems obtain v where
    v: "(if a \<notin> set (map fst new)
            then ebind (getitem old a) (\<lambda>r. Inr (PyFloat (dreal r)))
            else getitem new a) = Inr v"
    and rest: "update_items old new ps (dict_set acc a v) = Inr merged"
    by (auto simp: ebind_eq_Inr)
  have va: "(if a \<in> fst ` set new then map_of new a
            else map_option (\<lambda>r. PyFloat (dreal r)) (map_of old a)) = Some v"
    using v by (auto simp: ebind_eq_Inr getitem_Inr_iff split: if_splits)
  have ih: "map_of merged p =
     (if p \<in> set ps
      then (if p \<in> fst ` set new then map_of new p
            else map_option (\<lambda>r. PyFloat (dreal r)) (map_of old p))
      else ((map_of acc)(a \<mapsto> v)) p)"
    using Cons.IH [OF rest] by (simp only: map_of_dict_set)
  show ?case
  proof (cases "p \<in> set ps")
    case True
    then show ?thesis using ih by simp
  next
    case False
    show ?thesis
    proof (cases "p = a")
      case True
      then show ?thesis using ih False va by (auto split: if_splits)
    next
      case neq: False
      then show ?thesis using ih False by simp
    qed
  qed
qed

lemma update_items_keys:
  "update_items old new ps acc = Inr merged \<Longrightarrow> distinct (map fst acc) \<Longrightarrow>
   distinct (map fst acc @ ps) \<Longrightarrow> map fst merged = map fst acc @ ps"
proof (induction ps arbitrary: acc)
  case Nil
  then show ?case by simp
next
  case (Cons a ps)
  from Cons.prems(1) obtain v where
    rest: "update_items old new ps (dict_set acc a v) = Inr merged"
    by (auto simp: ebind_eq_Inr)
  have k: "map fst (dict_set acc a v) = map fst acc @ [a]"
    using Cons.prems(3) by (simp add: dict_set_keys)
  show ?case
    using Cons.IH [OF rest] Cons.prems k by simp
qed

lemma getitem_known: "k \<in> fst ` set d \<Longrightarrow> \<exists>i. getitem d k = Inr i"
proof (cases "getitem d k")
  case (Inl e)
  assume "k \<in> fst ` set d"
  with Inl show ?thesis by (simp add: getitem_Inl_iff)
next
  case (Inr i)
  then show ?thesis by simp
qed

subsection \<open>Arithmetic of dual numbers\<close>

lemma gradient_Dual_map:
  "gradient (Dual r (map (\<lambda>k. (k, h k)) ks)) k = (if k \<in> set ks then h k else 0)"
  by (simp add: gradient_def map_of_map_restrict restrict_map_def)

lemma gradient_notin: "k \<notin> set (dvars a) \<Longrightarrow> gradient a k = 0"
  by (simp add: gradient_def dvars_def map_of_eq_None_iff [THEN iffD2])

lemma set_union_vars [simp]: "set (union_vars a b) = set (dvars a) \<union> set (dvars b)"
  by (simp add: union_vars_def)

lemma dreal_const [simp]: "dreal (const c) = c"
  by (simp add: const_def)

lemma gradient_const [simp]: "gradient (const c) k = 0"
  by (simp add: const_def gradient_def)

lemma dreal_dadd [simp]: "dreal (dadd a b) = dreal a + dreal b"
  by (simp add: dadd_def)

lemma gradient_dadd [simp]: "gradient (dadd a b) k = gradient a k + gradient b k"
  by (simp add: dadd_def gradient_Dual_map gradient_notin)

lemma dreal_dmul [simp]: "dreal (dmul a b) = dreal a * dreal b"
  by (simp add: dmul_def)

lemma gradient_dmul [simp]:
  "gradient (dmul a b) k = gradient a k * dreal b + dreal a * gradient b k"
  by (simp add: dmul_def gradient_Dual_map gradient_notin)

lemma ddiv_Inr:
  assumes "ddiv a b = Inr c"
  shows "dreal b \<noteq> 0" and "dreal c = dreal a / dreal b"
    and "gradient c k = gradient a k / dreal b - dreal a * gradient b k / (dreal b)\<^sup>2"
  using assms by (auto simp: ddiv_def gradient_Dual_map gradient_notin split: if_splits)

lemma ddiv_defined: "dreal b \<noteq> 0 \<Longrightarrow> \<exists>c. ddiv a b = Inr c"
  by (simp add: ddiv_def)

lemma dual_eq_iff: "dual_eq a b \<longleftrightarrow> dreal a = dreal b \<and> (\<forall>k. gradient a k = gradient b k)"
proof -
  have "(\<forall>k \<in> set (dvars a) \<union> set (dvars b). gradient a k = gradient b k)
        = (\<forall>k. gradient a k = gradient b k)"
    by (metis Un_iff gradient_notin)
  then show ?thesis by (simp add: dual_eq_def list_all_iff)
qed

lemma setitem2_Inr:
  assumes "setitem2 M i j v = Inr M'" and "rect n M"
  shows "i < n" and "j < n" and "rect n M'"
    and "\<And>a b. a < n \<Longrightarrow> b < n \<Longrightarrow> M' ! a ! b = (if a = i \<and> b = j then v else M ! a ! b)"
  using assms by (auto simp: setitem2_def rect_def nth_list_update split: if_splits)

lemma init_fx_array_Inr:
  assumes "init_fx_array x ps M = Inr M'" and "rect n M"
  shows "rect n M' \<and>
         (\<forall>(i, j) \<in> set ps. i < n \<and> j < n \<and> i < length x \<and> j < length x \<and>
                              dreal (x ! i) \<noteq> 0 \<and> dreal (x ! j) \<noteq> 0) \<and>
         (\<forall>a<n. \<forall>b<n. if (a, b) \<in> set ps \<or> (b, a) \<in> set ps
                        then ddiv (x ! b) (x ! a) = Inr (M' ! a ! b)
                        else M' ! a ! b = M ! a ! b)"
  using assms
proof (induction ps arbitrary: M)
  case Nil
  then show ?case by simp
next
  case (Cons ij ps)
  obtain i j where ij: "ij = (i, j)" by (cases ij)
  from Cons.prems(1) obtain u l M1 M2 where
    xj: "j < length x" and xi: "i < length x"
    and u: "ddiv (x ! j) (x ! i) = Inr u" and l: "ddiv (x ! i) (x ! j) = Inr l"
    and M1: "setitem2 M i j u = Inr M1" and M2: "setitem2 M1 j i l = Inr M2"
    and rest: "init_fx_array x ps M2 = Inr M'"
    unfolding ij by (auto simp: ebind_eq_Inr index1_def split: if_splits)
  note s1 = setitem2_Inr [OF M1 Cons.prems(2)]
  note s2 = setitem2_Inr [OF M2 s1(3)]
  note ih = Cons.IH [OF rest s2(3)]
  have nz: "dreal (x ! i) \<noteq> 0" "dreal (x ! j) \<noteq> 0"
    using ddiv_Inr(1) [OF u] ddiv_Inr(1) [OF l] by auto
  have M2ab: "M2 ! a ! b = (if a = j \<and> b = i then l else if a = i \<and> b = j then u else M ! a ! b)"
    if "a < n" "b < n" for a b
    using that s1(4) s2(4) by simp
  have ih3: "if (a, b) \<in> set ps \<or> (b, a) \<in> set ps
              then ddiv (x ! b) (x ! a) = Inr (M' ! a ! b)
              else M' ! a ! b = M2 ! a ! b"
    if "a < n" "b < n" for a b
    using ih that by blast
  have ent: "if (a, b) \<in> set (ij # ps) \<or> (b, a) \<in> set (ij # ps)
              then ddiv (x ! b) (x ! a) = Inr (M' ! a ! b)
              else M' ! a ! b = M ! a ! b"
    if ab: "a < n" "b < n" for a b
  proof (cases "(a, b) \<in> set ps \<or> (b, a) \<in> set ps")
    case True
    then have "ddiv (x ! b) (x ! a) = Inr (M' ! a ! b)" using ih3 [OF ab] by simp
    then show ?thesis using True by auto
  next
    case False
    then have eq: "M' ! a ! b = M2 ! a ! b" using ih3 [OF ab] by simp
    consider (ji) "a = j" "b = i" | (ij) "a = i" "b = j" "\<not> (a = j \<and> b = i)"
      | (other) "\<not> (a = j \<and> b = i)" "\<not> (a = i \<and> b = j)"
      by blast
    then show ?thesis
    proof cases
      case ji
      then have "M' ! a ! b = l" using eq M2ab [OF ab] by simp
      then show ?thesis using ji l unfolding ij by simp
    next
      case ij
      then have "M' ! a ! b = u" using eq M2ab [OF ab] by simp
      then show ?thesis using ij(1,2) u unfolding \<open>ij = (i, j)\<close> by simp
    next
      case other
      have "M2 ! a ! b = M ! a ! b"
        by (simp only: M2ab [OF ab] other if_False)
      then have "M' ! a ! b = M ! a ! b" using eq by simp
      moreover have "\<not> ((a, b) \<in> set (ij # ps) \<or> (b, a) \<in> set (ij # ps))"
        using False other unfolding ij by auto
      ultimately show ?thesis by simp
    qed
  qed
  have r: "rect n M'" using ih by simp
  have hd: "i < n \<and> j < n \<and> i < length x \<and> j < length x \<and>
            dreal (x ! i) \<noteq> 0 \<and> dreal (x ! j) \<noteq> 0"
    using s1(1,2) xi xj nz by simp
  have tl: "\<forall>(i, j) \<in> set ps. i < n \<and> j < n \<and> i < length x \<and> j < length x \<and>
                              dreal (x ! i) \<noteq> 0 \<and> dreal (x ! j) \<noteq> 0"
    using ih by simp
  have all: "\<forall>(i, j) \<in> set (ij # ps). i < n \<and> j < n \<and> i < length x \<and> j < length x \<and>
                              dreal (x ! i) \<noteq> 0 \<and> dreal (x ! j) \<noteq> 0"
    unfolding ij using hd tl by simp
  from r all ent show ?case by blast
qed

lemma set_index_pairs: "(i, j) \<in> set (index_pairs n) \<longleftrightarrow> i < j \<and> j < n"
proof
  assume "(i, j) \<in> set (index_pairs n)"
  then show "i < j \<and> j < n" by (auto simp: index_pairs_def)
next
  assume a: "i < j \<and> j < n"
  then have "i \<in> {0..<n}" and "(i, j) \<in> Pair i ` {Suc i..<n}" by auto
  then show "(i, j) \<in> set (index_pairs n)"
    unfolding index_pairs_def by (simp add: image_iff)
qed

lemma rect_eye: "rect n (eye n)"
  by (simp add: rect_def eye_def)

lemma eye_diag: "i < n \<Longrightarrow> eye n ! i ! i = const 1"
  by (simp add: eye_def)

lemma is_quotient_ddiv: "ddiv u v = Inr e \<Longrightarrow> is_quotient e u v"
  unfolding is_quotient_def using ddiv_Inr [of u v e] by blast

lemma is_quotient_one: "dreal u \<noteq> 0 \<Longrightarrow> is_quotient (const 1) u u"
  by (simp add: is_quotient_def power2_eq_square)

lemma map_fst_init_fx_rates: "map fst (init_fx_rates items) = map fst (lower_keys items)"
  by (simp add: init_fx_rates_lower_keys comp_def case_prod_unfold)

lemma constructed_pairs:
  assumes "FXRates_init solve dflt items st bs = Inr fxr"
  shows "distinct (pairs fxr)" and "\<And>p. p \<in> set (pairs fxr) \<Longrightarrow> lower p = p"
    and "pairs fxr \<noteq> []" and "length (pairs fxr) + 1 = q fxr"
    and "map fst (fx_rates fxr) = pairs fxr"
proof -
  note f = FXRates_init_Inr [OF assms]
  have p: "pairs fxr = map fst (lower_keys items)"
    by (simp add: f(2) map_fst_init_fx_rates)
  show "distinct (pairs fxr)" by (simp add: p lower_keys_distinct)
  show "lower p = p" if "p \<in> set (pairs fxr)" for p
    using that lower_keys_keys_lower [of p items] by (simp add: p)
  show ne: "pairs fxr \<noteq> []"
  proof
    assume "pairs fxr = []"
    then have "q fxr = 0"
      by (simp add: f(5) f(4) init_currencies_list_def currency_appearances_def)
    with f(10) \<open>pairs fxr = []\<close> show False by simp
  qed
  show "length (pairs fxr) + 1 = q fxr" using f(10) by linarith
  show "map fst (fx_rates fxr) = pairs fxr" by (simp add: f(1) f(2))
qed

lemma constructed_getitem:
  assumes "FXRates_init solve dflt items st bs = Inr fxr"
    and "c \<in> set (currencies_list fxr)"
  shows "getitem (currencies fxr) c = Inr (first_index (currencies_list fxr) c)"
    and "first_index (currencies_list fxr) c < q fxr"
    and "lower c = c"
proof -
  note f = FXRates_init_Inr [OF assms(1)]
  have cs: "currencies fxr = map (\<lambda>(i, k). (k, i)) (List.enumerate 0 (currencies_list fxr))"
    by (simp add: f(3) f(4) init_currencies_def)
  show "getitem (currencies fxr) c = Inr (first_index (currencies_list fxr) c)"
    using assms(2) by (simp add: getitem_Inr_iff cs map_of_enumerate_swap)
  show "first_index (currencies_list fxr) c < q fxr"
    using assms(2) by (simp add: f(5) first_index_less)
  have "c \<in> set (currency_appearances (pairs fxr))"
    using assms(2) by (simp add: f(4) init_currencies_list_def)
  then obtain p where p: "p \<in> set (pairs fxr)" and c: "c = take 3 p \<or> c = take 3 (drop 3 p)"
    by (auto simp: currency_appearances_def)
  have "lower p = p" using constructed_pairs(2) [OF assms(1) p] .
  then have "lower (take 3 p) = take 3 p" "lower (take 3 (drop 3 p)) = take 3 (drop 3 p)"
    by (simp_all add: lower_take lower_drop)
  with c show "lower c = c" by auto
qed

lemma constructed_fx_array:
  assumes "FXRates_init solve dflt items st bs = Inr fxr"
  shows "rect (q fxr) (fx_array fxr)"
    and "2 \<le> q fxr"
    and "\<And>i. i < q fxr \<Longrightarrow> i < length (fx_vector fxr) \<and> dreal (fx_vector fxr ! i) \<noteq> 0"
    and "\<And>i j. i < q fxr \<Longrightarrow> j < q fxr \<Longrightarrow>
           is_quotient (fx_array fxr ! i ! j) (fx_vector fxr ! j) (fx_vector fxr ! i)"
proof -
  note f = FXRates_init_Inr [OF assms]
  from f(11) have arr: "init_fx_array (fx_vector fxr) (index_pairs (q fxr)) (eye (q fxr)) = Inr (fx_array fxr)"
    by blast
  note a = init_fx_array_Inr [OF arr rect_eye]
  show "rect (q fxr) (fx_array fxr)" using a by simp
  show q2: "2 \<le> q fxr"
    using constructed_pairs(3,4) [OF assms] by (cases "pairs fxr") auto
  have pr: "i < length (fx_vector fxr) \<and> j < length (fx_vector fxr) \<and>
            dreal (fx_vector fxr ! i) \<noteq> 0 \<and> dreal (fx_vector fxr ! j) \<noteq> 0"
    if "i < j" "j < q fxr" for i j
  proof -
    have "(i, j) \<in> set (index_pairs (q fxr))" using that by (simp add: set_index_pairs)
    then show ?thesis using a by blast
  qed
  show nz: "i < length (fx_vector fxr) \<and> dreal (fx_vector fxr ! i) \<noteq> 0" if "i < q fxr" for i
  proof (cases "i = 0")
    case True
    then show ?thesis using pr [of 0 1] q2 by simp
  next
    case False
    then show ?thesis using pr [of 0 i] that by simp
  qed
  show "is_quotient (fx_array fxr ! i ! j) (fx_vector fxr ! j) (fx_vector fxr ! i)"
    if ij: "i < q fxr" "j < q fxr" for i j
  proof (cases "i = j")
    case True
    have "(i, i) \<notin> set (index_pairs (q fxr))" by (simp add: set_index_pairs)
    then have "fx_array fxr ! i ! i = eye (q fxr) ! i ! i"
      using a ij(1) by (metis (mono_tags, lifting))
    then show ?thesis using True nz [OF ij(1)] ij(1) by (simp add: eye_diag is_quotient_one)
  next
    case False
    then have "(i, j) \<in> set (index_pairs (q fxr)) \<or> (j, i) \<in> set (index_pairs (q fxr))"
      using ij by (simp add: set_index_pairs) linarith
    then have "ddiv (fx_vector fxr ! j) (fx_vector fxr ! i) = Inr (fx_array fxr ! i ! j)"
      using a ij by (metis (mono_tags, lifting))
    then show ?thesis by (rule is_quotient_ddiv)
  qed
qed

lemma rate_constructed:
  assumes "FXRates_init solve dflt items st bs = Inr fxr"
    and "lower (take 3 P) \<in> set (currencies_list fxr)"
    and "lower (drop 3 P) \<in> set (currencies_list fxr)"
  shows "rate fxr P = Inr (fx_array fxr ! first_index (currencies_list fxr) (lower (take 3 P))
                                        ! first_index (currencies_list fxr) (lower (drop 3 P)))"
proof -
  note d = constructed_getitem [OF assms(1,2)]
  note e = constructed_getitem [OF assms(1,3)]
  note r = constructed_fx_array(1) [OF assms(1)]
  show ?thesis
    using d(1,2) e(1,2) r by (simp add: rate_def Let_def index2_def index1_def rect_def)
qed

lemma is_quotient_triangle:
  assumes "is_quotient e1 xb xa" and "is_quotient e2 xc xb" and "is_quotient e3 xc xa"
  shows "dual_eq (dmul e1 e2) e3"
proof -
  have nz: "dreal xa \<noteq> 0" "dreal xb \<noteq> 0" using assms by (simp_all add: is_quotient_def)
  have v: "dreal (dmul e1 e2) = dreal e3"
    using assms nz by (simp add: is_quotient_def)
  have g: "gradient (dmul e1 e2) k = gradient e3 k" for k
  proof -
    have g1: "gradient e1 k = gradient xb k / dreal xa - dreal xb * gradient xa k / (dreal xa)\<^sup>2"
      and g2: "gradient e2 k = gradient xc k / dreal xb - dreal xc * gradient xb k / (dreal xb)\<^sup>2"
      and g3: "gradient e3 k = gradient xc k / dreal xa - dreal xc * gradient xa k / (dreal xa)\<^sup>2"
      and v1: "dreal e1 = dreal xb / dreal xa" and v2: "dreal e2 = dreal xc / dreal xb"
      using assms by (simp_all add: is_quotient_def)
    show ?thesis
      unfolding gradient_dmul g1 g2 g3 v1 v2 using nz
      by (simp add: field_simps power2_eq_square)
  qed
  show ?thesis using v g by (simp add: dual_eq_iff)
qed

lemma setitem2_row:
  assumes "setitem2 M i j v = Inr M'" and "rect n M"
  shows "\<And>a. a < n \<Longrightarrow> M' ! a = (if a = i then (M ! i)[j := v] else M ! a)"
  using assms by (auto simp: setitem2_def rect_def split: if_splits)

lemma setitem1_Inr:
  assumes "setitem1 xs i v = Inr xs'"
  shows "i < length xs" and "xs' = xs[i := v]"
  using assms by (auto simp: setitem1_def split: if_splits)

lemma init_system_Inr:
  assumes "init_system cs fx (List.enumerate k ps) A b = Inr (A', b')"
    and "rect n A" and "length b = n"
  shows "rect n A' \<and> length b' = n \<and>
         (\<forall>m. m \<le> k \<longrightarrow> m < n \<longrightarrow> A' ! m = A ! m \<and> b' ! m = b ! m) \<and>
         (\<forall>i<length ps. k + i + 1 < n \<and>
            (\<exists>d f r iv. getitem cs (take 3 (ps ! i)) = Inr d \<and>
               getitem cs (drop 3 (ps ! i)) = Inr f \<and>
               getitem fx (ps ! i) = Inr r \<and> ddiv (const 1) r = Inr iv \<and>
               d < n \<and> f < n \<and>
               A' ! (k + i + 1) = (A ! (k + i + 1))[d := const (- 1), f := iv] \<and>
               b' ! (k + i + 1) = const 0))"
  using assms
proof (induction ps arbitrary: k A b)
  case Nil
  then show ?case by simp
next
  case (Cons p ps)
  from Cons.prems(1) obtain d f A1 r iv A2 b1 where
    d: "getitem cs (take 3 p) = Inr d" and f: "getitem cs (drop 3 p) = Inr f"
    and A1: "setitem2 A (k + 1) d (const (- 1)) = Inr A1"
    and r: "getitem fx p = Inr r" and iv: "ddiv (const 1) r = Inr iv"
    and A2: "setitem2 A1 (k + 1) f iv = Inr A2"
    and b1: "setitem1 b (k + 1) (const 0) = Inr b1"
    and rest: "init_system cs fx (List.enumerate (Suc k) ps) A2 b1 = Inr (A', b')"
    by (auto simp: ebind_eq_Inr)
  note s1 = setitem2_Inr(1,2,3) [OF A1 Cons.prems(2)] setitem2_row [OF A1 Cons.prems(2)]
  note s2 = setitem2_Inr(1,2,3) [OF A2 s1(3)] setitem2_row [OF A2 s1(3)]
  note t = setitem1_Inr [OF b1]
  have lb1: "length b1 = n" using t Cons.prems(3) by simp
  note ih = Cons.IH [OF rest s2(3) lb1]
  have row: "A2 ! a = (if a = k + 1 then (A ! (k + 1))[d := const (- 1), f := iv] else A ! a)"
    if "a < n" for a
    using that s1(4) s2(4) s1(1) by simp
  have b1a: "b1 ! a = (if a = k + 1 then const 0 else b ! a)" if "a < n" for a
    using that t Cons.prems(3) by (simp add: nth_list_update)
  have c1: "rect n A' \<and> length b' = n" using ih by simp
  have c2: "A' ! m = A ! m \<and> b' ! m = b ! m" if "m \<le> k" "m < n" for m
  proof -
    have "A' ! m = A2 ! m \<and> b' ! m = b1 ! m" using ih that by simp
    then show ?thesis using row [OF that(2)] b1a [OF that(2)] that(1) by simp
  qed
  have c3: "k + i + 1 < n \<and>
            (\<exists>d f r iv. getitem cs (take 3 ((p # ps) ! i)) = Inr d \<and>
               getitem cs (drop 3 ((p # ps) ! i)) = Inr f \<and>
               getitem fx ((p # ps) ! i) = Inr r \<and> ddiv (const 1) r = Inr iv \<and>
               d < n \<and> f < n \<and>
               A' ! (k + i + 1) = (A ! (k + i + 1))[d := const (- 1), f := iv] \<and>
               b' ! (k + i + 1) = const 0)"
    if "i < length (p # ps)" for i
  proof (cases i)
    case 0
    have "A' ! (k + 1) = A2 ! (k + 1) \<and> b' ! (k + 1) = b1 ! (k + 1)"
      using ih s1(1) by simp
    then have "A' ! (k + 1) = (A ! (k + 1))[d := const (- 1), f := iv] \<and> b' ! (k + 1) = const 0"
      using row [OF s1(1)] b1a [OF s1(1)] by simp
    then show ?thesis using 0 d f r iv s1(1,2) s2(2) by auto
  next
    case (Suc i')
    then have i': "i' < length ps" using that by simp
    from ih i' have lt: "Suc k + i' + 1 < n" by blast
    from ih i' obtain d' f' r' iv' where
      e: "getitem cs (take 3 (ps ! i')) = Inr d'" "getitem cs (drop 3 (ps ! i')) = Inr f'"
         "getitem fx (ps ! i') = Inr r'" "ddiv (const 1) r' = Inr iv'" "d' < n" "f' < n"
         "A' ! (Suc k + i' + 1) = (A2 ! (Suc k + i' + 1))[d' := const (- 1), f' := iv']"
         "b' ! (Suc k + i' + 1) = const 0"
      by blast
    have "A2 ! (Suc k + i' + 1) = A ! (Suc k + i' + 1)" using row [OF lt] by simp
    then show ?thesis using Suc lt e by auto
  qed
  from c1 c2 c3 show ?case by blast
qed

lemma dreal_foldr_dadd: "dreal (foldr dadd ds (const 0)) = sum_list (map dreal ds)"
  by (induction ds) simp_all

lemma gradient_foldr_dadd: "gradient (foldr dadd ds (const 0)) k = sum_list (map (\<lambda>d. gradient d k) ds)"
  by (induction ds) simp_all

lemma sum_list_map2_nth:
  fixes g :: "'a \<Rightarrow> 'b \<Rightarrow> real"
  assumes "length u = n" and "length x = n"
  shows "sum_list (map2 g u x) = (\<Sum>i = 0..<n. g (u ! i) (x ! i))"
proof -
  have "sum_list (map2 g u x) = (\<Sum>i = 0..<length (map2 g u x). map2 g u x ! i)"
    by (rule sum_list_sum_nth)
  also have "\<dots> = (\<Sum>i = 0..<n. g (u ! i) (x ! i))"
    using assms by (intro sum.cong) simp_all
  finally show ?thesis .
qed

lemma sum_sparse_row:
  fixes g :: "'a \<Rightarrow> 'b \<Rightarrow> real"
  assumes "length x = n" and "d < n" and "f < n" and "\<And>y. g z y = 0"
  shows "sum_list (map2 g ((replicate n z)[d := c, f := v]) x) =
           (if d = f then g v (x ! f) else g c (x ! d) + g v (x ! f))"
proof -
  let ?u = "(replicate n z)[d := c, f := v]"
  have u: "?u ! i = (if i = f then v else if i = d then c else z)" if "i < n" for i
    using that assms(2,3) by (simp add: nth_list_update)
  have "sum_list (map2 g ?u x) = (\<Sum>i = 0..<n. g (?u ! i) (x ! i))"
    by (rule sum_list_map2_nth) (simp_all add: assms(1))
  also have "\<dots> = (\<Sum>i = 0..<n. (if i = f then g v (x ! f) else 0)
                              + (if i = d then (if d = f then 0 else g c (x ! d)) else 0))"
    using u assms(4) by (intro sum.cong) auto
  also have "\<dots> = (if d = f then g v (x ! f) else g c (x ! d) + g v (x ! f))"
    using assms(2,3) by (simp add: sum.distrib)
  finally show ?thesis .
qed

lemma dot_sparse_row:
  assumes "length x = n" and "d < n" and "f < n" and "d \<noteq> f"
  shows "dreal (dot ((replicate n (const 0))[d := c, f := v]) x)
           = dreal c * dreal (x ! d) + dreal v * dreal (x ! f)"
    and "gradient (dot ((replicate n (const 0))[d := c, f := v]) x) k
           = (gradient c k * dreal (x ! d) + dreal c * gradient (x ! d) k)
             + (gradient v k * dreal (x ! f) + dreal v * gradient (x ! f) k)"
proof -
  let ?u = "(replicate n (const 0))[d := c, f := v]"
  have m1: "map dreal (map2 dmul ?u x) = map2 (\<lambda>a b. dreal a * dreal b) ?u x"
    by (simp add: case_prod_unfold)
  have m2: "map (\<lambda>e. gradient e k) (map2 dmul ?u x)
              = map2 (\<lambda>a b. gradient a k * dreal b + dreal a * gradient b k) ?u x"
    by (simp add: case_prod_unfold)
  show "dreal (dot ?u x) = dreal c * dreal (x ! d) + dreal v * dreal (x ! f)"
    unfolding dot_def dreal_foldr_dadd m1
    using sum_sparse_row [OF assms(1,2,3), of "\<lambda>a b. dreal a * dreal b" "const 0" c v] assms(4)
    by simp
  show "gradient (dot ?u x) k
           = (gradient c k * dreal (x ! d) + dreal c * gradient (x ! d) k)
             + (gradient v k * dreal (x ! f) + dreal v * gradient (x ! f) k)"
    unfolding dot_def gradient_foldr_dadd m2
    using sum_sparse_row [OF assms(1,2,3),
        of "\<lambda>a b. gradient a k * dreal b + dreal a * gradient b k" "const 0" c v] assms(4)
    by simp
qed

lemma dot_single_row:
  assumes "length x = n" and "d < n"
  shows "dreal (dot ((replicate n (const 0))[d := c, d := v]) x) = dreal v * dreal (x ! d)"
proof -
  let ?u = "(replicate n (const 0))[d := c, d := v]"
  have m1: "map dreal (map2 dmul ?u x) = map2 (\<lambda>a b. dreal a * dreal b) ?u x"
    by (simp add: case_prod_unfold)
  show ?thesis
    unfolding dot_def dreal_foldr_dadd m1
    using sum_sparse_row [OF assms(1,2,2), of "\<lambda>a b. dreal a * dreal b" "const 0" c v]
    by simp
qed

lemma rect_zeros: "rect n (zeros n)"
  by (simp add: rect_def zeros_def)

lemma quotient_from_row:
  assumes e: "is_quotient e xf xd"
    and iv: "ddiv (const 1) r = Inr iv"
    and v: "- 1 * dreal xd + dreal iv * dreal xf = 0"
    and g: "\<And>k. (0 * dreal xd + (- 1) * gradient xd k)
                 + (gradient iv k * dreal xf + dreal iv * gradient xf k) = 0"
  shows "dual_eq e r"
proof -
  have rv: "dreal r \<noteq> 0" and div: "dreal iv = 1 / dreal r"
    using ddiv_Inr(1,2) [OF iv] by simp_all
  have giv: "gradient iv k = - gradient r k / (dreal r)\<^sup>2" for k
    using ddiv_Inr(3) [OF iv, of k] by simp
  have vd: "dreal xd \<noteq> 0" using e by (simp add: is_quotient_def)
  have vf: "dreal xf = dreal r * dreal xd"
    using v rv by (simp add: div field_simps)
  have gf: "gradient xf k = dreal r * gradient xd k + gradient r k * dreal xd" for k
  proof -
    have "- gradient xd k + (- gradient r k / (dreal r)\<^sup>2) * (dreal r * dreal xd)
            + (1 / dreal r) * gradient xf k = 0"
      using g [of k] by (simp add: giv div vf)
    then have "- gradient xd k * dreal r - gradient r k * dreal xd + gradient xf k = 0"
      using rv by (simp add: field_simps power2_eq_square)
    then show ?thesis by (simp add: algebra_simps)
  qed
  have ev: "dreal e = dreal r"
    using e vd by (simp add: is_quotient_def vf)
  have eg: "gradient e k = gradient r k" for k
  proof -
    have "gradient e k = gradient xf k / dreal xd - dreal xf * gradient xd k / (dreal xd)\<^sup>2"
      using e by (simp add: is_quotient_def)
    then show ?thesis using vd by (simp add: gf vf field_simps power2_eq_square)
  qed
  show ?thesis using ev eg by (simp add: dual_eq_iff)
qed

lemma constructed_input_rate:
  assumes spec: "dual_solve_spec solve"
    and init: "FXRates_init solve dflt items st bs = Inr fxr"
    and p: "p \<in> set (pairs fxr)"
  shows "\<exists>d f r. getitem (currencies fxr) (take 3 p) = Inr d \<and>
           getitem (currencies fxr) (drop 3 p) = Inr f \<and>
           getitem (fx_rates fxr) p = Inr r \<and> d < q fxr \<and> f < q fxr \<and> d \<noteq> f \<and>
           dual_eq (fx_array fxr ! d ! f) r"
proof -
  let ?n = "q fxr"
  let ?x = "fx_vector fxr"
  note fi = FXRates_init_Inr [OF init]
  from fi(11) obtain A0 A bv where
    A0: "setitem2 (zeros ?n) 0 0 (const 1) = Inr A0"
    and sys: "init_system (currencies fxr) (fx_rates fxr) (List.enumerate 0 (pairs fxr)) A0
                (replicate ?n (const 1)) = Inr (A, bv)"
    and sol: "solve A bv = Some ?x"
    by blast
  note z = setitem2_Inr(1,3) [OF A0 rect_zeros] setitem2_row [OF A0 rect_zeros]
  have lb: "length (replicate ?n (const (1::real))) = ?n" by simp
  note s = init_system_Inr [OF sys z(2) lb]
  from p obtain i where i: "i < length (pairs fxr)" and pi: "pairs fxr ! i = p"
    by (auto simp: in_set_conv_nth)
  from s i have lt: "i + 1 < ?n" by auto
  from s i obtain d f r iv where
    d: "getitem (currencies fxr) (take 3 p) = Inr d"
    and f: "getitem (currencies fxr) (drop 3 p) = Inr f"
    and r: "getitem (fx_rates fxr) p = Inr r" and iv: "ddiv (const 1) r = Inr iv"
    and dn: "d < ?n" and fn: "f < ?n"
    and row: "A ! (i + 1) = (A0 ! (i + 1))[d := const (- 1), f := iv]"
    and bi: "bv ! (i + 1) = const 0"
    unfolding pi [symmetric] by force
  have A0row: "A0 ! (i + 1) = replicate ?n (const 0)"
    using z(3) [OF lt] lt by (simp add: zeros_def)
  have lens: "length A = ?n" "length bv = ?n" using s by (simp_all add: rect_def)
  from spec sol have lx: "length ?x = length bv"
    and all: "list_all2 (\<lambda>row bi. dual_eq (dot row ?x) bi) A bv"
    unfolding dual_solve_spec_def by blast+
  have "dual_eq (dot (A ! (i + 1)) ?x) (bv ! (i + 1))"
    using list_all2_nthD [OF all, of "i + 1"] lens lt by simp
  then have eq0: "dual_eq (dot ((replicate ?n (const 0))[d := const (- 1), f := iv]) ?x) (const 0)"
    by (simp only: row A0row bi)
  have lxn: "length ?x = ?n" using lx lens by simp
  note nz = constructed_fx_array(3) [OF init]
  have rv: "dreal r \<noteq> 0" and div: "dreal iv = 1 / dreal r"
    using ddiv_Inr(1,2) [OF iv] by simp_all
  have neq: "d \<noteq> f"
  proof
    assume "d = f"
    then have "dreal iv * dreal (?x ! d) = 0"
      using eq0 dot_single_row [OF lxn dn, of "const (- 1)" iv] by (simp add: dual_eq_iff)
    then show False using nz [OF dn] rv by (simp add: div)
  qed
  note ds = dot_sparse_row [OF lxn dn fn neq, of "const (- 1)" iv]
  have v: "- 1 * dreal (?x ! d) + dreal iv * dreal (?x ! f) = 0"
    using eq0 ds(1) by (simp add: dual_eq_iff)
  have g: "(0 * dreal (?x ! d) + (- 1) * gradient (?x ! d) k)
                 + (gradient iv k * dreal (?x ! f) + dreal iv * gradient (?x ! f) k) = 0" for k
    using eq0 ds(2) [of k] by (simp add: dual_eq_iff)
  have "dual_eq (fx_array fxr ! d ! f) r"
    by (rule quotient_from_row [OF constructed_fx_array(4) [OF init dn fn] iv v g])
  with d f r dn fn neq show ?thesis by blast
qed

lemma map_of_map_values:
  "map_of d p = Some val \<Longrightarrow> map_of (map (\<lambda>(k, v). (k, h k v)) d) p = Some (h p val)"
  by (induction d) (auto split: if_splits)

lemma fx_rates_plain:
  assumes "FXRates_init solve dflt items st bs = Inr fxr"
    and "map_of (lower_keys items) p = Some val"
  shows "getitem (fx_rates fxr) p = Inr (wrap_dual p val)" and "p \<in> set (pairs fxr)"
proof -
  note f = FXRates_init_Inr [OF assms(1)]
  have "map_of (map (\<lambda>(k, v). (k, wrap_dual k v)) (lower_keys items)) p = Some (wrap_dual p val)"
    using assms(2) by (rule map_of_map_values)
  then show "getitem (fx_rates fxr) p = Inr (wrap_dual p val)"
    by (simp add: f(1) init_fx_rates_lower_keys getitem_Inr_iff)
  have "p \<in> fst ` set (lower_keys items)"
    using assms(2) by (metis map_of_eq_None_iff option.distinct(1))
  then show "p \<in> set (pairs fxr)"
    by (simp add: f(2) map_fst_init_fx_rates)
qed

lemma rate_input_pair:
  assumes spec: "dual_solve_spec solve"
    and init: "FXRates_init solve dflt items st bs = Inr fxr"
    and p: "p \<in> set (pairs fxr)"
  shows "\<exists>e r. rate fxr p = Inr e \<and> getitem (fx_rates fxr) p = Inr r \<and> dual_eq e r"
proof -
  from constructed_input_rate [OF spec init p] obtain d f r where
    d: "getitem (currencies fxr) (take 3 p) = Inr d"
    and f: "getitem (currencies fxr) (drop 3 p) = Inr f"
    and r: "getitem (fx_rates fxr) p = Inr r" and dn: "d < q fxr" and fn: "f < q fxr"
    and eq: "dual_eq (fx_array fxr ! d ! f) r"
    by blast
  have lp: "lower p = p" using constructed_pairs(2) [OF init p] .
  have "rate fxr p = Inr (fx_array fxr ! d ! f)"
    using d f dn fn constructed_fx_array(1) [OF init]
    by (simp add: rate_def Let_def lower_take lower_drop lp index2_def index1_def rect_def)
  with r eq show ?thesis by blast
qed

subsection \<open>Double precision\<close>

lemma powr_two_neg: "2 powr of_int (- int k) = 1 / (2::real) ^ k"
proof -
  have "(2::real) powr of_int (- int k) = 2 powr (- real k)" by simp
  also have "\<dots> = 1 / 2 powr real k" by (rule powr_minus_divide)
  also have "\<dots> = 1 / 2 ^ k" by (simp add: powr_realpow)
  finally show ?thesis .
qed

lemma powr_two_diff: "2 powr of_int (int m - int k) = (2::real) ^ m / 2 ^ k"
proof -
  have "(2::real) powr of_int (int m - int k) = 2 powr (real m - real k)" by simp
  also have "\<dots> = 2 powr real m / 2 powr real k" by (rule powr_diff)
  also have "\<dots> = 2 ^ m / 2 ^ k" by (simp add: powr_realpow)
  finally show ?thesis .
qed

lemma fl_eq:
  assumes lo: "2 ^ 52 \<le> \<bar>x\<bar> * 2 ^ k" and hi: "\<bar>x\<bar> * 2 ^ k < 2 ^ 53"
    and r: "round_even (x * 2 ^ k) = n"
  shows "fl x = of_int n / 2 ^ k"
proof -
  have p: "(0::real) < 2 ^ k" by simp
  have x0: "x \<noteq> 0"
  proof
    assume "x = 0"
    then show False using lo by simp
  qed
  then have pos: "0 < \<bar>x\<bar>" by simp
  have l: "2 powr of_int (int 52 - int k) \<le> \<bar>x\<bar>"
    unfolding powr_two_diff using lo p by (simp add: field_simps)
  have h: "\<bar>x\<bar> < 2 powr of_int (int 52 - int k + 1)"
  proof -
    have "int 52 - int k + 1 = int 53 - int k" by simp
    then have eq: "(2::real) powr of_int (int 52 - int k + 1) = 2 ^ 53 / 2 ^ k"
      by (simp only: powr_two_diff)
    have "\<bar>x\<bar> < 2 ^ 53 / 2 ^ k" using hi p by (simp add: field_simps)
    then show ?thesis by (simp only: eq)
  qed
  have "\<lfloor>log 2 \<bar>x\<bar>\<rfloor> = int 52 - int k"
    using floor_log_eq_powr_iff [of "\<bar>x\<bar>" 2 "int 52 - int k"] pos l h by simp
  then have e: "\<lfloor>log 2 \<bar>x\<bar>\<rfloor> - 52 = - int k" by simp
  have "fl x = of_int (round_even (x / 2 powr of_int (- int k))) * 2 powr of_int (- int k)"
    using x0 by (simp only: fl_def e Let_def if_False)
  also have "\<dots> = of_int (round_even (x * 2 ^ k)) / 2 ^ k"
    by (simp only: powr_two_neg) simp
  finally show ?thesis by (simp only: r)
qed

lemma round_even_of_int: "round_even (of_int n) = n"
  by (simp add: round_even_def)

lemma fl_representable:
  assumes "x = of_int n / 2 ^ k" and "2 ^ 52 \<le> \<bar>n\<bar>" and "\<bar>n\<bar> < 2 ^ 53"
  shows "fl x = x"
proof -
  have xk: "x * 2 ^ k = of_int n" using assms(1) by simp
  have a: "\<bar>x\<bar> * 2 ^ k = of_int \<bar>n\<bar>"
  proof -
    have "\<bar>x\<bar> * 2 ^ k = \<bar>x * 2 ^ k\<bar>" by (simp add: abs_mult)
    then show ?thesis by (simp only: xk of_int_abs)
  qed
  have lo: "2 ^ 52 \<le> \<bar>x\<bar> * 2 ^ k"
  proof -
    have "(of_int (2 ^ 52) :: real) \<le> of_int \<bar>n\<bar>" using assms(2) by (simp only: of_int_le_iff)
    then show ?thesis by (simp only: a) simp
  qed
  have hi: "\<bar>x\<bar> * 2 ^ k < 2 ^ 53"
  proof -
    have "(of_int \<bar>n\<bar> :: real) < of_int (2 ^ 53)" using assms(3) by (simp only: of_int_less_iff)
    then show ?thesis by (simp only: a) simp
  qed
  have "round_even (x * 2 ^ k) = n" by (simp only: xk round_even_of_int)
  from fl_eq [OF lo hi this] show ?thesis using assms(1) by simp
qed

lemma fl_zero [simp]: "fl 0 = 0"
  by (simp add: fl_def)

subsection \<open>Positions\<close>

lemma dadd_r_id [simp]: "dadd_r (\<lambda>x. x) a b = dadd a b"
  by (simp add: dadd_r_def dadd_def)

lemma dmul_r_id [simp]: "dmul_r (\<lambda>x. x) a b = dmul a b"
  by (simp add: dmul_r_def dmul_def)

lemma foldl_dadd_r_id [simp]: "foldl (dadd_r (\<lambda>x. x)) y ys = foldl dadd y ys"
  by (induction ys arbitrary: y) simp_all

lemma dreal_foldl_dadd: "dreal (foldl dadd y ys) = dreal y + sum_list (map dreal ys)"
  by (induction ys arbitrary: y) simp_all

lemma gradient_foldl_dadd:
  "gradient (foldl dadd y ys) k = gradient y k + sum_list (map (\<lambda>d. gradient d k) ys)"
  by (induction ys arbitrary: y) simp_all

lemma dreal_np_sum: "dreal (np_sum (\<lambda>x. x) xs) = sum_list (map dreal xs)"
  by (cases xs) (simp_all add: np_sum_def dreal_foldl_dadd)

lemma gradient_np_sum: "gradient (np_sum (\<lambda>x. x) xs) k = sum_list (map (\<lambda>d. gradient d k) xs)"
  by (cases xs) (simp_all add: np_sum_def gradient_foldl_dadd)

lemma column_Inr: "(\<forall>row \<in> set M. j < length row) \<Longrightarrow> column M j = Inr (map (\<lambda>row. row ! j) M)"
  by (induction M) (simp_all add: index1_def)

lemma column_rect:
  assumes "rect n M" and "j < n"
  shows "column M j = Inr (map (\<lambda>row. row ! j) M)"
proof (rule column_Inr)
  show "\<forall>row \<in> set M. j < length row"
    using assms by (auto simp: rect_def in_set_conv_nth)
qed

lemma weighted_add:
  assumes "length P = n" and "length Q = n" and "length c = n"
  shows "weighted c (map2 (+) P Q) = weighted c P + weighted c Q"
proof -
  have "weighted c (map2 (+) P Q) = (\<Sum>i = 0..<n. (map2 (+) P Q ! i) * c ! i)"
    unfolding weighted_def by (rule sum_list_map2_nth) (simp_all add: assms)
  also have "\<dots> = (\<Sum>i = 0..<n. P ! i * c ! i + Q ! i * c ! i)"
    using assms by (intro sum.cong) (simp_all add: algebra_simps)
  also have "\<dots> = weighted c P + weighted c Q"
    unfolding weighted_def
    by (simp add: sum.distrib sum_list_map2_nth [OF assms(1,3)] sum_list_map2_nth [OF assms(2,3)])
  finally show ?thesis .
qed

lemma weighted_sparse:
  assumes "length c = n" and "d < n" and "f < n" and "d \<noteq> f"
  shows "weighted c ((replicate n 0)[d := a, f := b]) = a * c ! d + b * c ! f"
  unfolding weighted_def
  using sum_sparse_row [OF assms(1,2,3), of "(*)" 0 a b] assms(4) by simp

lemma weighted_single:
  assumes "length c = n" and "d < n"
  shows "weighted c ((replicate n 0)[d := a]) = a * c ! d"
proof -
  have "(replicate n (0::real))[d := a] = (replicate n 0)[d := a, d := a]" by simp
  then show ?thesis
    unfolding weighted_def
    using sum_sparse_row [OF assms(1,2,2), of "(*)" 0 a a] by simp
qed

lemma seed_sparse:
  assumes "distinct cl" and "b \<in> set cl"
  shows "map (\<lambda>ccy. if ccy \<noteq> b then 0 else r) cl = (replicate (length cl) (0::real))[first_index cl b := r]"
  using assms
proof (induction cl)
  case Nil
  then show ?case by simp
next
  case (Cons c cl)
  show ?case
  proof (cases "c = b")
    case True
    then have "b \<notin> set cl" using Cons.prems(1) by simp
    then have "map (\<lambda>ccy. if ccy \<noteq> b then 0 else r) cl = replicate (length cl) 0"
      by (induction cl) auto
    with True show ?thesis by simp
  next
    case False
    then show ?thesis using Cons by simp
  qed
qed

lemma convert_positions_constructed:
  assumes init: "FXRates_init solve dflt items st bs = Inr fxr"
    and b: "b \<in> set (currencies_list fxr)"
    and P: "length P = q fxr"
  shows "\<exists>e. convert_positions (\<lambda>x. x) fxr P (Some b) = Inr e \<and>
           dreal e = weighted (map (\<lambda>row. dreal (row ! first_index (currencies_list fxr) b)) (fx_array fxr)) P \<and>
           (\<forall>k. gradient e k =
              weighted (map (\<lambda>row. gradient (row ! first_index (currencies_list fxr) b) k) (fx_array fxr)) P)"
proof -
  let ?j = "first_index (currencies_list fxr) b"
  let ?col = "map (\<lambda>row. row ! ?j) (fx_array fxr)"
  let ?prods = "map2 (\<lambda>a r. dmul (const a) r) P ?col"
  note g = constructed_getitem [OF init b]
  note r = constructed_fx_array(1) [OF init]
  have len: "length (fx_array fxr) = q fxr" using r by (simp add: rect_def)
  have col: "column (fx_array fxr) ?j = Inr ?col" using column_rect [OF r g(2)] .
  have bc: "np_broadcast (\<lambda>a r. dmul (const a) r) P ?col = Inr ?prods"
    using P len by (simp add: np_broadcast_def)
  have cp: "convert_positions (\<lambda>x. x) fxr P (Some b) = Inr (np_sum (\<lambda>x. x) ?prods)"
    by (simp add: convert_positions_def Let_def g(1,3) col bc)
  have v: "dreal (np_sum (\<lambda>x. x) ?prods) = weighted (map (\<lambda>row. dreal (row ! ?j)) (fx_array fxr)) P"
    by (simp add: dreal_np_sum weighted_def zip_map2 comp_def case_prod_unfold)
  have gr: "gradient (np_sum (\<lambda>x. x) ?prods) k
             = weighted (map (\<lambda>row. gradient (row ! ?j) k) (fx_array fxr)) P" for k
    by (simp add: gradient_np_sum weighted_def zip_map2 comp_def case_prod_unfold)
  from cp v gr show ?thesis by blast
qed

lemma get_positions_from_delta_constructed:
  assumes spec: "dual_solve_spec solve"
    and init: "FXRates_init solve dflt items st bs = Inr fxr"
    and b: "b \<in> set (currencies_list fxr)"
    and p: "p \<in> set (pairs fxr)"
  shows "\<exists>d f r. d < q fxr \<and> f < q fxr \<and> d \<noteq> f \<and>
           getitem (fx_rates fxr) p = Inr r \<and> dual_eq (fx_array fxr ! d ! f) r \<and>
           get_positions_from_delta (\<lambda>x. x) fxr delta p b =
             Inr ((replicate (q fxr) 0)
                    [d := delta * dreal (fx_array fxr ! first_index (currencies_list fxr) b ! f),
                     f := - (delta * dreal (fx_array fxr ! first_index (currencies_list fxr) b ! f))
                            / dreal (fx_array fxr ! f ! d)])"
proof -
  let ?j = "first_index (currencies_list fxr) b"
  from constructed_input_rate [OF spec init p] obtain d f r where
    d: "getitem (currencies fxr) (take 3 p) = Inr d"
    and f: "getitem (currencies fxr) (drop 3 p) = Inr f"
    and r: "getitem (fx_rates fxr) p = Inr r" and dn: "d < q fxr" and fn: "f < q fxr"
    and neq: "d \<noteq> f" and eq: "dual_eq (fx_array fxr ! d ! f) r"
    by blast
  note g = constructed_getitem [OF init b]
  note rc = constructed_fx_array(1) [OF init]
  have ix: "index2 (fx_array fxr) i j = Inr (fx_array fxr ! i ! j)" if "i < q fxr" "j < q fxr" for i j
    using that rc by (simp add: index2_def index1_def rect_def)
  have nz: "dreal (fx_array fxr ! f ! d) \<noteq> 0"
  proof -
    have "is_quotient (fx_array fxr ! f ! d) (fx_vector fxr ! d) (fx_vector fxr ! f)"
      by (rule constructed_fx_array(4) [OF init fn dn])
    then show ?thesis
      using constructed_fx_array(3) [OF init dn] constructed_fx_array(3) [OF init fn]
      by (simp add: is_quotient_def)
  qed
  have "get_positions_from_delta (\<lambda>x. x) fxr delta p b =
          Inr ((replicate (q fxr) 0)
                 [d := delta * dreal (fx_array fxr ! ?j ! f),
                  f := - (delta * dreal (fx_array fxr ! ?j ! f)) / dreal (fx_array fxr ! f ! d)])"
    using dn fn nz
    by (simp add: get_positions_from_delta_def Let_def g(1) d f ix [OF g(2) fn] ix [OF fn dn]
        setitem1_def)
  with dn fn neq r eq show ?thesis by blast
qed

lemma position_value_zero:
  assumes "is_quotient ejf xf xj" and "is_quotient edj xj xd" and "is_quotient efd xd xf"
    and "is_quotient efj xj xf"
  shows "(delta * dreal ejf) * dreal edj + (- (delta * dreal ejf) / dreal efd) * dreal efj = 0"
proof -
  have nz: "dreal xj \<noteq> 0" "dreal xd \<noteq> 0" "dreal xf \<noteq> 0"
    using assms by (simp_all add: is_quotient_def)
  have v: "dreal ejf = dreal xf / dreal xj" "dreal edj = dreal xj / dreal xd"
    "dreal efd = dreal xd / dreal xf" "dreal efj = dreal xj / dreal xf"
    using assms by (simp_all add: is_quotient_def)
  show ?thesis unfolding v using nz by (simp add: field_simps)
qed

lemma position_gradient:
  assumes "is_quotient ejf xf xj" and "is_quotient edj xj xd" and "is_quotient efd xd xf"
    and "is_quotient efj xj xf" and "is_quotient edf xf xd"
  shows "(delta * dreal ejf) * gradient edj k + (- (delta * dreal ejf) / dreal efd) * gradient efj k
           = delta * gradient edf k"
proof -
  have nz: "dreal xj \<noteq> 0" "dreal xd \<noteq> 0" "dreal xf \<noteq> 0"
    using assms by (simp_all add: is_quotient_def)
  have v: "dreal ejf = dreal xf / dreal xj" "dreal efd = dreal xd / dreal xf"
    using assms by (simp_all add: is_quotient_def)
  have g: "gradient edj k = gradient xj k / dreal xd - dreal xj * gradient xd k / (dreal xd)\<^sup>2"
    "gradient efj k = gradient xj k / dreal xf - dreal xj * gradient xf k / (dreal xf)\<^sup>2"
    "gradient edf k = gradient xf k / dreal xd - dreal xf * gradient xd k / (dreal xd)\<^sup>2"
    using assms by (simp_all add: is_quotient_def)
  show ?thesis unfolding v g using nz by (simp add: field_simps power2_eq_square)
qed

lemma sum_list_indicator:
  fixes h :: "'a \<Rightarrow> real"
  assumes "distinct ks"
  shows "(\<Sum>k\<leftarrow>ks. h k * (if k0 = k then 1 else 0)) = (if k0 \<in> set ks then h k0 else 0)"
  using assms by (induction ks) auto

lemma np_iadd_same: "length xs = length ys \<Longrightarrow> np_iadd (\<lambda>x. x) xs ys = Inr (map2 (+) xs ys)"
  by (simp add: np_iadd_def)

lemma positions_loop_weighted:
  assumes "length c = n" and "length acc = n"
    and "\<And>k. k \<in> set ks \<Longrightarrow> take 3 k = ''fx_'' \<and>
           (\<exists>Q. get_positions_from_delta (\<lambda>x. x) fxr (gradient v k) (drop 3 k) b = Inr Q \<and>
                length Q = n \<and> weighted c Q = gradient v k * w k)"
  shows "\<exists>P. positions_loop (\<lambda>x. x) fxr v b ks acc = Inr P \<and> length P = n \<and>
           weighted c P = weighted c acc + (\<Sum>k\<leftarrow>ks. gradient v k * w k)"
  using assms(2,3)
proof (induction ks arbitrary: acc)
  case Nil
  then show ?case by simp
next
  case (Cons k ks)
  from Cons.prems(2) [of k] obtain Q where
    fx: "take 3 k = ''fx_''"
    and Q: "get_positions_from_delta (\<lambda>x. x) fxr (gradient v k) (drop 3 k) b = Inr Q"
    and lQ: "length Q = n" and wQ: "weighted c Q = gradient v k * w k"
    by auto
  have add: "np_iadd (\<lambda>x. x) acc Q = Inr (map2 (+) acc Q)"
    using Cons.prems(1) lQ by (simp add: np_iadd_same)
  have step: "positions_loop (\<lambda>x. x) fxr v b (k # ks) acc = positions_loop (\<lambda>x. x) fxr v b ks (map2 (+) acc Q)"
    using fx Q add by (simp add: Let_def)
  have len: "length (map2 (+) acc Q) = n" using Cons.prems(1) lQ by simp
  from Cons.IH [OF len] Cons.prems(2) obtain P where
    P: "positions_loop (\<lambda>x. x) fxr v b ks (map2 (+) acc Q) = Inr P" "length P = n"
    "weighted c P = weighted c (map2 (+) acc Q) + (\<Sum>k\<leftarrow>ks. gradient v k * w k)"
    by auto
  have "weighted c (map2 (+) acc Q) = weighted c acc + gradient v k * w k"
    using weighted_add [OF Cons.prems(1) lQ assms(1)] wQ by simp
  then show ?case using P step by simp
qed

lemma dict_set_values: "snd ` set (dict_set d k v) \<subseteq> insert v (snd ` set d)"
proof (induction d)
  case Nil
  then show ?case by simp
next
  case (Cons a d)
  obtain k' v' where a: "a = (k', v')" by (cases a)
  show ?case
  proof (cases "k' = k")
    case True
    then show ?thesis unfolding a by auto
  next
    case False
    then show ?thesis unfolding a using Cons.IH by auto
  qed
qed

lemma lower_keys_values: "snd ` set (lower_keys items) \<subseteq> snd ` set items"
proof (induction items rule: rev_induct)
  case Nil
  then show ?case by (simp add: lower_keys_def)
next
  case (snoc kv items)
  obtain k v where kv: "kv = (k, v)" by (cases kv)
  have "snd ` set (lower_keys (items @ [kv])) \<subseteq> insert v (snd ` set (lower_keys items))"
    unfolding kv lower_keys_snoc by (rule dict_set_values)
  also have "\<dots> \<subseteq> insert v (snd ` set items)"
    using snoc.IH by blast
  also have "\<dots> = snd ` set (items @ [kv])"
    unfolding kv by simp
  finally show ?case .
qed

lemma fx_rates_plain_reals:
  assumes init: "FXRates_init solve dflt items st bs = Inr fxr"
    and plain: "\<forall>kv \<in> set items. \<exists>r. snd kv = PyFloat r"
    and p: "p \<in> set (pairs fxr)"
  shows "\<exists>r. getitem (fx_rates fxr) p = Inr (Dual r [(''fx_'' @ p, 1)])"
proof -
  note f = FXRates_init_Inr [OF init]
  have "p \<in> fst ` set (lower_keys items)"
    using p by (simp add: f(2) map_fst_init_fx_rates)
  then have "map_of (lower_keys items) p \<noteq> None"
    by (simp add: map_of_eq_None_iff)
  then obtain val where m: "map_of (lower_keys items) p = Some val"
    by blast
  have "(p, val) \<in> set (lower_keys items)" using m by (rule map_of_SomeD)
  then have "snd (p, val) \<in> snd ` set (lower_keys items)" by (rule imageI)
  then have "val \<in> snd ` set (lower_keys items)" by simp
  then have "val \<in> snd ` set items" using lower_keys_values [of items] by blast
  then obtain r where "val = PyFloat r" using plain by auto
  then show ?thesis using fx_rates_plain(1) [OF init m] by (auto simp: wrap_dual_def)
qed

lemma plain_rates_own:
  assumes init: "FXRates_init solve dflt items st bs = Inr fxr"
    and plain: "\<forall>kv \<in> set items. \<exists>r. snd kv = PyFloat r"
  shows "\<forall>p \<in> set (pairs fxr). \<exists>r. getitem (fx_rates fxr) p = Inr r \<and>
           (\<forall>k. gradient r k = (if k = ''fx_'' @ p then 1 else 0))"
proof
  fix p assume p: "p \<in> set (pairs fxr)"
  from fx_rates_plain_reals [OF init plain p] obtain rv where
    r: "getitem (fx_rates fxr) p = Inr (Dual rv [(''fx_'' @ p, 1)])"
    by blast
  have "\<forall>k. gradient (Dual rv [(''fx_'' @ p, 1)]) k = (if k = ''fx_'' @ p then 1 else 0)"
    by (simp add: gradient_def)
  with r show "\<exists>r. getitem (fx_rates fxr) p = Inr r \<and>
           (\<forall>k. gradient r k = (if k = ''fx_'' @ p then 1 else 0))"
    by blast
qed

subsection \<open>The worked markets in double precision\<close>

lemma FXRates_init_usdeur_usdnok:
  "FXRates_init usdeur_usdnok_solver ''usd'' [(''usdeur'', PyFloat 1.5), (''usdnok'', PyFloat 75)]
     None None = Inr usdeur_usdnok"
  by (simp add: usdeur_usdnok_solver_def usdeur_usdnok_def eval_defs)

lemma FXRates_init_usdnok_z:
  "FXRates_init usdnok_z_solver ''usd'' [(''usdnok'', PyDual (Dual 8 [(''z'', 1)]))] None None
     = Inr usdnok_z"
  by (simp add: usdnok_z_solver_def usdnok_z_def eval_defs)

lemma dreal_dadd_r [simp]: "dreal (dadd_r rnd a b) = rnd (dreal a + dreal b)"
  by (simp add: dadd_r_def)

lemma dreal_dmul_r [simp]: "dreal (dmul_r rnd a b) = rnd (dreal a * dreal b)"
  by (simp add: dmul_r_def)

lemma dreal_round_dual [simp]: "dreal (round_dual rnd a) = rnd (dreal a)"
  by (simp add: round_dual_def)

lemma fl_1: "fl 1 = 1"
  by (rule fl_representable [where n = "2 ^ 52" and k = 52]) simp_all

lemma fl_50: "fl 50 = 50"
  by (rule fl_representable [where n = "7036874417766400" and k = 47]) simp_all

lemma fl_75: "fl 75 = 75"
  by (rule fl_representable [where n = "5277655813324800" and k = 46]) simp_all

lemma fl_225: "fl 225 = 225"
  by (rule fl_representable [where n = "7916483719987200" and k = 45]) simp_all

lemma fl_16875: "fl (- 16875) = - 16875"
  by (rule fl_representable [where n = "- 4638564679680000" and k = 38]) simp_all

lemma fl_one_75: "fl (1 / 75) = 7686143364045647 / 2 ^ 59"
  using fl_eq [where x = "1 / 75" and n = "7686143364045647" and k = 59]
  by (simp add: round_even_def)

lemma fl_two_thirds: "fl (2 / 3) = 6004799503160661 / 2 ^ 53"
  using fl_eq [where x = "2 / 3" and n = "6004799503160661" and k = 53]
  by (simp add: round_even_def)

lemma fl_quotient: "fl (- (225 / fl (1 / 75))) = - 16875"
  unfolding fl_one_75
  using fl_eq [where x = "- (225 / (7686143364045647 / 2 ^ 59))" and n = "- 4638564679680000" and k = 38]
  by (simp add: round_even_def)

lemma fl_product: "fl (- (16875 * fl (1 / 75))) = - (7916483719987201 / 2 ^ 45)"
  unfolding fl_one_75
  using fl_eq [where x = "- (16875 * (7686143364045647 / 2 ^ 59))" and n = "- 7916483719987201" and k = 45]
  by (simp add: round_even_def)

lemma fl_difference: "fl (225 - 7916483719987201 / 2 ^ 45) = - (1 / 2 ^ 45)"
  using fl_eq [where x = "225 - 7916483719987201 / 2 ^ 45" and n = "- (2 ^ 52)" and k = 97]
  by (simp add: round_even_def)

lemma fl_one_75_nz: "fl (1 / 75) \<noteq> 0"
  by (simp add: fl_one_75)

lemma fl_tiny: "fl (- (1 / 35184372088832)) = - (1 / 35184372088832)"
  by (rule fl_representable [where n = "- (2 ^ 52)" and k = 97]) simp_all

lemma fl_cross: "fl (50 * fl (1 / 75)) = 6004799503160662 / 2 ^ 53"
  unfolding fl_one_75
  using fl_eq [where x = "50 * (7686143364045647 / 2 ^ 59)" and n = "6004799503160662" and k = 53]
  by (simp add: round_even_def)

lemmas double_defs =
  in_doubles_def getitem_def index2_def index1_def lower_def lower_char_def setitem1_def
  to_dual_def dvars_def gradient_def const_def

lemma positions_in_doubles:
  "positions fl (in_doubles usdeur_usdnok) (PyDual (Dual 0 [(''fx_usdnok'', 3)])) (Some ''usd'')
     = Inr [225, 0, - 16875]"
  by (simp add: positions_def get_positions_from_delta_def np_iadd_def usdeur_usdnok_def double_defs
      fl_75 fl_225 fl_one_75_nz fl_quotient fl_16875 numeral_3_eq_3)

lemma convert_positions_in_doubles:
  "map_sum id dreal (convert_positions fl (in_doubles usdeur_usdnok) [225, 0, - 16875] (Some ''usd''))
     = Inr (- (1 / 2 ^ 45))"
  by (simp add: convert_positions_def np_broadcast_def np_sum_def usdeur_usdnok_def double_defs
      fl_1 fl_225 fl_product fl_tiny)

subsection \<open>Immediate rates\<close>









subsection \<open>Copy and restate\<close>









section \<open>Claims\<close>

subsection \<open>C5: the order of the currencies\<close>

text \<open>
  C5 (as stated): the index map follows first appearance while the pair list is walked
  pair by pair, domestic then foreign of each pair. The constructor instead lists the
  domestic currencies of all pairs and then the foreign currencies of all pairs, and
  keeps each currency at its first appearance in that list. On the market of the class
  docstring the code gives eur, gbp, usd, jpy where the walk pair by pair gives
  eur, usd, gbp, jpy.
\<close>

theorem currencies_order_counterexample: "map_sum id currencies (FXRates_init eurgbpjpy_solver ''usd'' eurgbpjpy_items None None)
   = Inr [(''eur'', 0), (''gbp'', 1), (''usd'', 2), (''jpy'', 3)] \<and>
  spec_currencies_list (map fst eurgbpjpy_items) = [''eur'', ''usd'', ''gbp'', ''jpy'']"
  by (simp add: eurgbpjpy_solver_def eurgbpjpy_items_def eval_defs spec_currencies_list_def upt_rec_numeral)

text \<open>
  C5 (amended): for every constructed \<^verbatim>\<open>FXRates\<close>, the currencies are distinct, they
  are exactly the currencies that appear in the list of all domestic codes followed by
  all foreign codes of the pairs, one currency comes before another exactly when its
  first appearance in that list comes first, and the index map sends each currency to
  its position.
\<close>

theorem currencies_first_appearance:
  assumes "FXRates_init solve dflt items st b = Inr fxr"
  shows "distinct (currencies_list fxr) \<and>
         set (currencies_list fxr) = set (currency_appearances (pairs fxr)) \<and>
         (\<forall>c \<in> set (currencies_list fxr). \<forall>d \<in> set (currencies_list fxr).
            (first_index (currencies_list fxr) c < first_index (currencies_list fxr) d) =
            (first_index (currency_appearances (pairs fxr)) c
               < first_index (currency_appearances (pairs fxr)) d)) \<and>
         (\<forall>c \<in> set (currencies_list fxr).
            getitem (currencies fxr) c = Inr (first_index (currencies_list fxr) c))"
proof -
  note f = FXRates_init_Inr [OF assms]
  have cl: "currencies_list fxr = dict_fromkeys (currency_appearances (pairs fxr))"
    by (simp add: f(4) init_currencies_list_def)
  have cs: "currencies fxr = map (\<lambda>(i, k). (k, i)) (List.enumerate 0 (currencies_list fxr))"
    by (simp add: f(3) f(4) init_currencies_def)
  have "getitem (currencies fxr) c = Inr (first_index (currencies_list fxr) c)"
    if "c \<in> set (currencies_list fxr)" for c
    using that by (simp add: getitem_Inr_iff cs map_of_enumerate_swap)
  then show ?thesis
    by (simp add: cl first_index_dict_fromkeys)
qed

theorem currencies_first_appearance_witness:
  "FXRates_init usdnok_solver ''usd'' [(''usdnok'', PyFloat 8)] None None = Inr usdnok \<and>
   currencies_list usdnok = [''usd'', ''nok''] \<and>
   currency_appearances (pairs usdnok) = [''usd'', ''nok''] \<and>
   getitem (currencies usdnok) ''nok'' = Inr (first_index (currencies_list usdnok) ''nok'')"
  using currencies_first_appearance [OF FXRates_init_usdnok] FXRates_init_usdnok
  by (simp add: usdnok_def currency_appearances_def getitem_def first_index_def)

subsection \<open>C8: the number of pairs\<close>

text \<open>
  C8: construction fails with a \<^verbatim>\<open>ValueError\<close> exactly when the number of pairs differs
  from \<open>q - 1\<close>. For the empty dictionary and no base, zero pairs differ from
  \<open>q - 1 = - 1\<close>, yet the constructor does not reach the comparison: the default base is
  read as \<^verbatim>\<open>currencies_list[0]\<close> of an empty list, an \<^verbatim>\<open>IndexError\<close>. The same
  dictionary with a base passes that line and is rejected as overspecified, as the claim
  says.
\<close>

theorem FXRates_init_empty:
  "int (length (init_pairs [])) \<noteq> int (length (init_currencies_list (init_pairs []))) - 1 \<and>
   FXRates_init usdnok_solver ''usd'' [] None None = Inl IndexError \<and>
   FXRates_init usdnok_solver ''usd'' [] None (Some ''usd'') = Inl (ValueError Overspecified)"
  by (simp add: eval_defs)

text \<open>
  On every other input the comparison is reached: when the dictionary is not empty or a
  base is passed, construction fails as overspecified exactly when there are more than
  \<open>q - 1\<close> pairs, as underspecified exactly when there are fewer, and with exactly
  \<open>q - 1\<close> pairs it goes on to the linear solve.
\<close>

theorem FXRates_init_pair_count:
  assumes "items \<noteq> [] \<or> b \<noteq> None"
  shows "(FXRates_init solve dflt items st b = Inl (ValueError Overspecified)) =
           (int (length (init_pairs items)) > int (length (init_currencies_list (init_pairs items))) - 1) \<and>
         (FXRates_init solve dflt items st b = Inl (ValueError Underspecified)) =
           (int (length (init_pairs items)) < int (length (init_currencies_list (init_pairs items))) - 1) \<and>
         (int (length (init_pairs items)) = int (length (init_currencies_list (init_pairs items))) - 1 \<longrightarrow>
           (\<exists>bs. init_base dflt (init_currencies_list (init_pairs items)) b = Inr bs \<and>
                 FXRates_init solve dflt items st b = init_solve solve st (init_fx_rates items) bs))"
proof -
  obtain bs where bs: "init_base dflt (init_currencies_list (init_pairs items)) b = Inr bs"
    using init_base_resolved [OF assms] by blast
  have eq: "FXRates_init solve dflt items st b =
     (if int (length (init_pairs items)) > int (length (init_currencies_list (init_pairs items))) - 1
      then Inl (ValueError Overspecified)
      else if int (length (init_pairs items)) < int (length (init_currencies_list (init_pairs items))) - 1
      then Inl (ValueError Underspecified)
      else init_solve solve st (init_fx_rates items) bs)"
    using bs by (simp add: FXRates_init_def init_pairs_def Let_def)
  show ?thesis
    unfolding eq using bs init_solve_no_ValueError [of solve st "init_fx_rates items" bs]
    by auto
qed

theorem FXRates_init_pair_count_witness:
  "FXRates_init usdnok_solver ''usd''
     [(''eurusd'', PyFloat 1.1), (''gbpusd'', PyFloat 1.25), (''usdjpy'', PyFloat 100),
      (''gbpjpy'', PyFloat 125)] None None = Inl (ValueError Overspecified) \<and>
   FXRates_init usdnok_solver ''usd''
     [(''eurusd'', PyFloat 1.1), (''gbpjpy'', PyFloat 125)] None None = Inl (ValueError Underspecified)"
proof -
  let ?over = "[(''eurusd'', PyFloat 1.1), (''gbpusd'', PyFloat 1.25), (''usdjpy'', PyFloat 100),
      (''gbpjpy'', PyFloat 125)]"
  let ?under = "[(''eurusd'', PyFloat 1.1), (''gbpjpy'', PyFloat 125)]"
  have o: "?over \<noteq> [] \<or> (None :: string option) \<noteq> None" by simp
  have u: "?under \<noteq> [] \<or> (None :: string option) \<noteq> None" by simp
  have co: "int (length (init_pairs ?over)) > int (length (init_currencies_list (init_pairs ?over))) - 1"
    by (simp add: eval_defs)
  have cu: "int (length (init_pairs ?under)) < int (length (init_currencies_list (init_pairs ?under))) - 1"
    by (simp add: eval_defs)
  show ?thesis
    using FXRates_init_pair_count [OF o, of usdnok_solver "''usd''" None] co
      FXRates_init_pair_count [OF u, of usdnok_solver "''usd''" None] cu
    by blast
qed

subsection \<open>C10: upper and lower case\<close>

text \<open>
  C10: the constructor lowers a key and then cuts it into its two codes, while
  \<^verbatim>\<open>rate\<close> cuts the pair and then lowers the two pieces. On strings of ASCII characters
  the two orders agree, and there \<^verbatim>\<open>rate\<close> gives the same for a pair and for the pair
  in lower case, \<^verbatim>\<open>convert\<close> gives the same for any casing of its two currencies, and
  the constructor gives the same object for a dictionary and for the dictionary with its
  keys in lower case (and for a base in either case). Outside ASCII the lowering of
  Python does not commute with cutting a string, and there the two orders differ.
\<close>

lemma case_insensitive_ascii:
  "rate self P = rate self (lower P) \<and>
   convert self v d f on_error = convert self v (lower d) (map_option lower f) on_error \<and>
   FXRates_init solve dflt items st b =
     FXRates_init solve dflt (lower_keys items) st (map_option lower b)"
  by (simp add: rate_lower convert_lower FXRates_init_lower)

subsection \<open>C6: the pairs accepted by update\<close>

text \<open>
  C6 (as stated): \<^verbatim>\<open>update\<close> raises whenever the pair set of the new rates is not
  equal to the pairs of the instance. The source only rejects a pair that the instance
  does not have; the docstring's own call \<^verbatim>\<open>fxr.update({"usdeur": 1.0})\<close> on the
  market of two pairs passes a proper subset, and the state is rebuilt.
\<close>

theorem update_subset_counterexample:
  "set (map fst (lower_keys [(''usdeur'', PyFloat 1)])) \<noteq> set (pairs usdeurnok) \<and>
   update usdeurnok_update_solver ''usd'' usdeurnok [(''usdeur'', PyFloat 1)] = Inr usdeurnok_updated"
proof -
  have "set (map fst (lower_keys [(''usdeur'', PyFloat 1)])) \<noteq> set (pairs usdeurnok)"
    by (simp add: usdeurnok_def eval_defs)
  then show ?thesis using update_usdeurnok by simp
qed

text \<open>
  C6 (amended): \<^verbatim>\<open>update\<close> raises the pair-set error exactly when the new rates
  contain a pair (in lower case) that is not a pair of the instance; otherwise the rates
  of the pairs that are not supplied are kept as floats, the state is rebuilt by the
  constructor from the merged rates, and the three recomputed fields are stored.
\<close>

theorem update_pair_check:
  "(update solve dflt self items = Inl (ValueError SamePairs)) =
     (\<not> set (map fst (lower_keys items)) \<subseteq> set (pairs self)) \<and>
   (set (map fst (lower_keys items)) \<subseteq> set (pairs self) \<longrightarrow>
      update solve dflt self items =
        ebind (update_items (fx_rates self) (lower_keys items) (pairs self) []) (\<lambda>merged.
        ebind (FXRates_init solve dflt merged (settlement self) (Some (base self))) (\<lambda>new.
        Inr (self\<lparr>fx_rates := fx_rates new, fx_vector := fx_vector new,
                   fx_array := fx_array new\<rparr>))))"
proof (cases "set (map fst (lower_keys items)) \<subseteq> set (pairs self)")
  case True
  then have eq: "update solve dflt self items =
        ebind (update_items (fx_rates self) (lower_keys items) (pairs self) []) (\<lambda>merged.
        ebind (FXRates_init solve dflt merged (settlement self) (Some (base self))) (\<lambda>new.
        Inr (self\<lparr>fx_rates := fx_rates new, fx_vector := fx_vector new,
                   fx_array := fx_array new\<rparr>)))"
    unfolding update_def Let_def update_check_iff by simp
  have "update solve dflt self items \<noteq> Inl (ValueError SamePairs)"
    unfolding eq using update_items_no_ValueError FXRates_init_not_SamePairs
    by (auto simp: ebind_def split: sum.splits)
  with True eq show ?thesis by simp
next
  case False
  then show ?thesis unfolding update_def Let_def update_check_iff by simp
qed

theorem update_pair_check_witness:
  "update usdeurnok_update_solver ''usd'' usdeurnok [(''usdeur'', PyFloat 1), (''usdjpy'', PyFloat 100)]
     = Inl (ValueError SamePairs) \<and>
   update usdeurnok_update_solver ''usd'' usdeurnok [(''usdeur'', PyFloat 1)] \<noteq> Inl (ValueError SamePairs)"
proof -
  have a: "\<not> set (map fst (lower_keys [(''usdeur'', PyFloat 1), (''usdjpy'', PyFloat 100)]))
             \<subseteq> set (pairs usdeurnok)"
    by (simp add: usdeurnok_def eval_defs)
  have b: "set (map fst (lower_keys [(''usdeur'', PyFloat 1)])) \<subseteq> set (pairs usdeurnok)"
    by (simp add: usdeurnok_def eval_defs)
  show ?thesis
    using update_pair_check [of usdeurnok_update_solver "''usd''" usdeurnok
        "[(''usdeur'', PyFloat 1), (''usdjpy'', PyFloat 100)]"] a
      update_pair_check [of usdeurnok_update_solver "''usd''" usdeurnok "[(''usdeur'', PyFloat 1)]"] b
    by blast
qed

subsection \<open>C7: unknown currencies\<close>

text \<open>
  C7 (as stated): both \<^verbatim>\<open>convert\<close> and \<^verbatim>\<open>rate\<close> dispatch an unknown currency
  through \<^verbatim>\<open>on_error\<close>. Only \<^verbatim>\<open>convert\<close> has that parameter; \<^verbatim>\<open>rate\<close> subscripts
  the index map and a currency that is not a key is a \<^verbatim>\<open>KeyError\<close>, where
  \<^verbatim>\<open>convert\<close> under \<^verbatim>\<open>"ignore"\<close> returns \<^verbatim>\<open>None\<close>.
\<close>

theorem rate_unknown_counterexample:
  "rate usdnok ''nokinr'' = Inl (KeyError ''inr'') \<and>
   convert usdnok (PyFloat 1000000) ''nok'' (Some ''inr'') ''ignore'' = Inr ([], None)"
  by (simp add: usdnok_def rate_def convert_def eval_defs)

text \<open>
  C7 (amended): for the first of domestic and foreign that is not a known currency,
  \<^verbatim>\<open>convert\<close> returns \<^verbatim>\<open>None\<close> silently under \<^verbatim>\<open>"ignore"\<close>, returns \<^verbatim>\<open>None\<close>
  with a warning under \<^verbatim>\<open>"warn"\<close>, and raises a \<^verbatim>\<open>ValueError\<close> under any other
  policy; \<^verbatim>\<open>rate\<close> has no policy and raises a \<^verbatim>\<open>KeyError\<close> for the first unknown
  code of its pair.
\<close>

theorem unknown_currency_policy:
  "(lower d \<notin> fst ` set (currencies self) \<longrightarrow>
      convert self v d f on_error =
        (if on_error = ''ignore'' then Inr ([], None)
         else if on_error = ''warn'' then Inr ([UserWarning (lower d)], None)
         else Inl (ValueError (NotInCurrencies (lower d))))) \<and>
   (lower d \<in> fst ` set (currencies self) \<and>
    (case f of None \<Rightarrow> base self | Some s \<Rightarrow> lower s) \<notin> fst ` set (currencies self) \<longrightarrow>
      convert self v d f on_error =
        (if on_error = ''ignore'' then Inr ([], None)
         else if on_error = ''warn''
           then Inr ([UserWarning (case f of None \<Rightarrow> base self | Some s \<Rightarrow> lower s)], None)
         else Inl (ValueError (NotInCurrencies
                (case f of None \<Rightarrow> base self | Some s \<Rightarrow> lower s))))) \<and>
   (lower (take 3 P) \<notin> fst ` set (currencies self) \<longrightarrow>
      rate self P = Inl (KeyError (lower (take 3 P)))) \<and>
   (lower (take 3 P) \<in> fst ` set (currencies self) \<and>
    lower (drop 3 P) \<notin> fst ` set (currencies self) \<longrightarrow>
      rate self P = Inl (KeyError (lower (drop 3 P))))"
proof -
  have r1: "rate self P = Inl (KeyError (lower (take 3 P)))"
    if "lower (take 3 P) \<notin> fst ` set (currencies self)"
  proof -
    have "getitem (currencies self) (lower (take 3 P)) = Inl (KeyError (lower (take 3 P)))"
      using that by (simp add: getitem_Inl_iff)
    then show ?thesis by (simp add: rate_def Let_def)
  qed
  have r2: "rate self P = Inl (KeyError (lower (drop 3 P)))"
    if known: "lower (take 3 P) \<in> fst ` set (currencies self)"
      and unknown: "lower (drop 3 P) \<notin> fst ` set (currencies self)"
  proof -
    obtain i where "getitem (currencies self) (lower (take 3 P)) = Inr i"
      using getitem_known [OF known] by blast
    moreover have "getitem (currencies self) (lower (drop 3 P)) = Inl (KeyError (lower (drop 3 P)))"
      using unknown by (simp add: getitem_Inl_iff)
    ultimately show ?thesis by (simp add: rate_def Let_def)
  qed
  have c: "convert self v d f on_error =
        (case convert_check (currencies self) on_error
                [lower d, (case f of None \<Rightarrow> base self | Some s \<Rightarrow> lower s)] of
           Some (Inl e) \<Rightarrow> Inl e
         | Some (Inr ws) \<Rightarrow> Inr (ws, None)
         | None \<Rightarrow>
             ebind (getitem (currencies self) (lower (lower d))) (\<lambda>i.
             ebind (getitem (currencies self)
                 (lower (case f of None \<Rightarrow> base self | Some s \<Rightarrow> lower s))) (\<lambda>j.
             ebind (index2 (fx_array self) i j) (\<lambda>r.
             Inr ([], Some (dmul (to_dual v) r))))))"
    by (simp add: convert_def Let_def)
  show ?thesis
    unfolding c using r1 r2 by simp
qed

theorem unknown_currency_policy_witness:
  "convert usdnok (PyFloat 1000000) ''nok'' (Some ''inr'') ''ignore'' = Inr ([], None) \<and>
   convert usdnok (PyFloat 1000000) ''nok'' (Some ''inr'') ''warn'' = Inr ([UserWarning ''inr''], None) \<and>
   convert usdnok (PyFloat 1000000) ''nok'' (Some ''inr'') ''raise''
     = Inl (ValueError (NotInCurrencies ''inr'')) \<and>
   rate usdnok ''inrnok'' = Inl (KeyError ''inr'')"
  using unknown_currency_policy [of "''nok''" usdnok "PyFloat 1000000" "Some ''inr''" "''ignore''" "''inrnok''"]
    unknown_currency_policy [of "''nok''" usdnok "PyFloat 1000000" "Some ''inr''" "''warn''" "''inrnok''"]
    unknown_currency_policy [of "''nok''" usdnok "PyFloat 1000000" "Some ''inr''" "''raise''" "''inrnok''"]
  by (simp add: usdnok_def lower_def lower_char_def)

subsection \<open>C9: what update changes\<close>

text \<open>
  C9: a successful \<^verbatim>\<open>update\<close> leaves \<^verbatim>\<open>pairs\<close>, \<^verbatim>\<open>currencies\<close> and their order,
  \<^verbatim>\<open>base\<close> and \<^verbatim>\<open>settlement\<close> (and \<^verbatim>\<open>q\<close>, \<^verbatim>\<open>variables\<close>, the AD order) as
  they were; the object is the same object with \<^verbatim>\<open>fx_rates\<close>, \<^verbatim>\<open>fx_vector\<close> and
  \<^verbatim>\<open>fx_array\<close> replaced by those of a fresh construction from the merged rates, in
  which a supplied pair has its new rate and every other pair its old real value.
\<close>

theorem update_frame:
  assumes "update solve dflt self items = Inr self'"
  shows "pairs self' = pairs self \<and> currencies self' = currencies self \<and>
         currencies_list self' = currencies_list self \<and> base self' = base self \<and>
         settlement self' = settlement self \<and> q self' = q self \<and>
         variables self' = variables self \<and> ad self' = ad self \<and>
         (\<exists>merged new.
            update_items (fx_rates self) (lower_keys items) (pairs self) [] = Inr merged \<and>
            (\<forall>p \<in> set (pairs self).
               map_of merged p =
                 (if p \<in> fst ` set (lower_keys items) then map_of (lower_keys items) p
                  else map_option (\<lambda>r. PyFloat (dreal r)) (map_of (fx_rates self) p))) \<and>
            FXRates_init solve dflt merged (settlement self) (Some (base self)) = Inr new \<and>
            self' = self\<lparr>fx_rates := fx_rates new, fx_vector := fx_vector new,
                         fx_array := fx_array new\<rparr>)"
proof -
  from assms obtain merged new where
    m: "update_items (fx_rates self) (lower_keys items) (pairs self) [] = Inr merged"
    and n: "FXRates_init solve dflt merged (settlement self) (Some (base self)) = Inr new"
    and s: "self' = self\<lparr>fx_rates := fx_rates new, fx_vector := fx_vector new,
                         fx_array := fx_array new\<rparr>"
    unfolding update_def Let_def by (auto simp: ebind_eq_Inr split: if_splits)
  have "\<forall>p \<in> set (pairs self).
               map_of merged p =
                 (if p \<in> fst ` set (lower_keys items) then map_of (lower_keys items) p
                  else map_option (\<lambda>r. PyFloat (dreal r)) (map_of (fx_rates self) p))"
    using update_items_map_of [OF m] by simp
  with m n s show ?thesis by auto
qed

theorem update_frame_witness:
  "update usdeurnok_update_solver ''usd'' usdeurnok [(''usdeur'', PyFloat 1)] = Inr usdeurnok_updated \<and>
   pairs usdeurnok_updated = pairs usdeurnok \<and>
   currencies usdeurnok_updated = currencies usdeurnok \<and>
   base usdeurnok_updated = base usdeurnok \<and>
   settlement usdeurnok_updated = settlement usdeurnok \<and>
   fx_rates usdeurnok_updated \<noteq> fx_rates usdeurnok"
  using update_frame [OF update_usdeurnok] update_usdeurnok
  by (simp add: usdeurnok_updated_def usdeurnok_def)

subsection \<open>C2: the rate of an input pair\<close>

text \<open>
  C2: for a constructed \<^verbatim>\<open>FXRates\<close> and a pair \<open>p\<close> that the input map (keys in lower
  case) gives as the plain real \<open>v\<close>, \<^verbatim>\<open>rate(p)\<close> has real part \<open>v\<close> and derivative
  one with respect to the variable \<^verbatim>\<open>fx_<p>\<close>. Floats are exact reals here, so
  approximately equal reads equal; the solver is any function that meets the contract
  \<open>dual_solve_spec\<close>.
\<close>

theorem rate_of_input_pair:
  assumes "dual_solve_spec solve"
    and "FXRates_init solve dflt items st bs = Inr fxr"
    and "map_of (lower_keys items) p = Some (PyFloat v)"
  shows "\<exists>e. rate fxr p = Inr e \<and> dreal e = v \<and> gradient e (''fx_'' @ p) = 1"
proof -
  note fp = fx_rates_plain [OF assms(2,3)]
  from rate_input_pair [OF assms(1,2) fp(2)] obtain e r where
    e: "rate fxr p = Inr e" and r: "getitem (fx_rates fxr) p = Inr r" and eq: "dual_eq e r"
    by blast
  have "r = Dual v [(''fx_'' @ p, 1)]" using r fp(1) by (simp add: wrap_dual_def)
  then have "dreal e = v" "gradient e (''fx_'' @ p) = 1"
    using eq by (simp_all add: dual_eq_iff gradient_def)
  with e show ?thesis by blast
qed

theorem rate_of_input_pair_witness:
  "dual_solve_spec usdeurnok_solver \<and>
   FXRates_init usdeurnok_solver ''usd'' [(''usdeur'', PyFloat 0.9), (''eurnok'', PyFloat 8.5)] None None
     = Inr usdeurnok \<and>
   map_of (lower_keys [(''usdeur'', PyFloat 0.9), (''eurnok'', PyFloat 8.5)]) ''eurnok'' = Some (PyFloat 8.5) \<and>
   rate usdeurnok ''eurnok'' = Inr (Dual 8.5 [(''fx_usdeur'', 0), (''fx_eurnok'', 1)]) \<and>
   dreal (Dual 8.5 [(''fx_usdeur'', 0), (''fx_eurnok'', 1)]) = 8.5 \<and>
   gradient (Dual 8.5 [(''fx_usdeur'', 0), (''fx_eurnok'', 1)]) ''fx_eurnok'' = 1"
proof -
  have s: "dual_solve_spec usdeurnok_solver"
    by (simp add: usdeurnok_solver_def checking_solver_spec)
  have m: "map_of (lower_keys [(''usdeur'', PyFloat 0.9), (''eurnok'', PyFloat 8.5)]) ''eurnok''
             = Some (PyFloat 8.5)"
    by (simp add: eval_defs)
  have r: "rate usdeurnok ''eurnok'' = Inr (Dual 8.5 [(''fx_usdeur'', 0), (''fx_eurnok'', 1)])"
    by (simp add: usdeurnok_def rate_def eval_defs)
  show ?thesis
    using rate_of_input_pair [OF s FXRates_init_usdeurnok m] s FXRates_init_usdeurnok m r
    by (simp add: gradient_def)
qed

subsection \<open>C3: the triangular identity\<close>

text \<open>
  C3 (as stated): \<^verbatim>\<open>rate(ab) * rate(bc) == rate(ac)\<close> as duals. The rates are quotients
  \<^verbatim>\<open>x[j] / x[i]\<close> of doubles and the product is a product of doubles, each rounded. On the
  market \<^verbatim>\<open>FXRates({"usdeur": 1.5, "usdnok": 75.0})\<close> the solved vector is
  \<open>1, 1.5, 75\<close>; in double precision \<^verbatim>\<open>rate("eurnok")\<close> is \<open>50\<close>, \<^verbatim>\<open>rate("nokusd")\<close> is
  \<open>1 / 75\<close> rounded, their product rounds to \<open>0.6666666666666667\<close>, and \<^verbatim>\<open>rate("eurusd")\<close>
  is \<open>1 / 1.5\<close> rounded, \<open>0.6666666666666666\<close>: the real parts differ in the last place.
\<close>

theorem triangular_identity_counterexample:
  "FXRates_init usdeur_usdnok_solver ''usd'' [(''usdeur'', PyFloat 1.5), (''usdnok'', PyFloat 75)]
     None None = Inr usdeur_usdnok \<and>
   map_sum id dreal (rate (in_doubles usdeur_usdnok) ''eurnok'') = Inr 50 \<and>
   map_sum id dreal (rate (in_doubles usdeur_usdnok) ''nokusd'') = Inr (7686143364045647 / 2 ^ 59) \<and>
   map_sum id dreal
     (ebind (rate (in_doubles usdeur_usdnok) ''eurnok'') (\<lambda>a.
      ebind (rate (in_doubles usdeur_usdnok) ''nokusd'') (\<lambda>b. Inr (dmul_r fl a b))))
     = Inr (6004799503160662 / 2 ^ 53) \<and>
   map_sum id dreal (rate (in_doubles usdeur_usdnok) ''eurusd'') = Inr (6004799503160661 / 2 ^ 53) \<and>
   map_sum id dreal
     (ebind (rate (in_doubles usdeur_usdnok) ''eurnok'') (\<lambda>a.
      ebind (rate (in_doubles usdeur_usdnok) ''nokusd'') (\<lambda>b. Inr (dmul_r fl a b))))
     \<noteq> map_sum id dreal (rate (in_doubles usdeur_usdnok) ''eurusd'')"
proof -
  have a: "map_sum id dreal (rate (in_doubles usdeur_usdnok) ''eurnok'') = Inr 50"
    by (simp add: rate_def usdeur_usdnok_def double_defs fl_50)
  have b: "map_sum id dreal (rate (in_doubles usdeur_usdnok) ''nokusd'') = Inr (7686143364045647 / 2 ^ 59)"
    by (simp add: rate_def usdeur_usdnok_def double_defs fl_one_75)
  have p: "map_sum id dreal
     (ebind (rate (in_doubles usdeur_usdnok) ''eurnok'') (\<lambda>a.
      ebind (rate (in_doubles usdeur_usdnok) ''nokusd'') (\<lambda>b. Inr (dmul_r fl a b))))
     = Inr (6004799503160662 / 2 ^ 53)"
    by (simp add: rate_def usdeur_usdnok_def double_defs fl_50 fl_cross)
  have c: "map_sum id dreal (rate (in_doubles usdeur_usdnok) ''eurusd'') = Inr (6004799503160661 / 2 ^ 53)"
    by (simp add: rate_def usdeur_usdnok_def double_defs fl_two_thirds)
  show ?thesis using FXRates_init_usdeur_usdnok a b p c by simp
qed

text \<open>
  C3 (amended): the identity holds up to the rounding of the arithmetic. For a constructed
  \<^verbatim>\<open>FXRates\<close> and currencies \<open>a\<close>, \<open>b\<close>, \<open>c\<close> of its currency list (codes of three
  characters, so that the pair strings split as intended), the rates of \<open>ab\<close>, \<open>bc\<close> and
  \<open>ac\<close> exist and, the quotients and the product taken in exact arithmetic,
  \<^verbatim>\<open>rate(ab) * rate(bc)\<close> equals \<^verbatim>\<open>rate(ac)\<close> as duals, in real part and in every
  derivative.
\<close>

theorem triangular_identity:
  assumes "FXRates_init solve dflt items st bs = Inr fxr"
    and "a \<in> set (currencies_list fxr)" and "b \<in> set (currencies_list fxr)"
    and "c \<in> set (currencies_list fxr)"
    and "length a = 3" and "length b = 3"
  shows "\<exists>rab rbc rac. rate fxr (a @ b) = Inr rab \<and> rate fxr (b @ c) = Inr rbc \<and>
           rate fxr (a @ c) = Inr rac \<and> dual_eq (dmul rab rbc) rac"
proof -
  let ?cl = "currencies_list fxr"
  let ?x = "fx_vector fxr"
  note la = constructed_getitem(2,3) [OF assms(1,2)]
  note lb = constructed_getitem(2,3) [OF assms(1,3)]
  note lc = constructed_getitem(2,3) [OF assms(1,4)]
  have ab: "rate fxr (a @ b) = Inr (fx_array fxr ! first_index ?cl a ! first_index ?cl b)"
    using rate_constructed [OF assms(1), of "a @ b"] assms la lb by simp
  have bc: "rate fxr (b @ c) = Inr (fx_array fxr ! first_index ?cl b ! first_index ?cl c)"
    using rate_constructed [OF assms(1), of "b @ c"] assms lb lc by simp
  have ac: "rate fxr (a @ c) = Inr (fx_array fxr ! first_index ?cl a ! first_index ?cl c)"
    using rate_constructed [OF assms(1), of "a @ c"] assms la lc by simp
  note qt = constructed_fx_array(4) [OF assms(1)]
  have "dual_eq (dmul (fx_array fxr ! first_index ?cl a ! first_index ?cl b)
                      (fx_array fxr ! first_index ?cl b ! first_index ?cl c))
                (fx_array fxr ! first_index ?cl a ! first_index ?cl c)"
    by (rule is_quotient_triangle [OF qt qt qt]) (rule la lb lc)+
  with ab bc ac show ?thesis by blast
qed

theorem triangular_identity_witness:
  "FXRates_init usdeurnok_solver ''usd'' [(''usdeur'', PyFloat 0.9), (''eurnok'', PyFloat 8.5)] None None
     = Inr usdeurnok \<and>
   rate usdeurnok (''usd'' @ ''eur'') = Inr (Dual 0.9 [(''fx_usdeur'', 1)]) \<and>
   rate usdeurnok (''eur'' @ ''nok'') = Inr (Dual 8.5 [(''fx_usdeur'', 0), (''fx_eurnok'', 1)]) \<and>
   rate usdeurnok (''usd'' @ ''nok'') = Inr (Dual 7.65 [(''fx_usdeur'', 8.5), (''fx_eurnok'', 0.9)]) \<and>
   dual_eq (dmul (Dual 0.9 [(''fx_usdeur'', 1)]) (Dual 8.5 [(''fx_usdeur'', 0), (''fx_eurnok'', 1)]))
           (Dual 7.65 [(''fx_usdeur'', 8.5), (''fx_eurnok'', 0.9)])"
proof -
  have c: "''usd'' \<in> set (currencies_list usdeurnok)" "''eur'' \<in> set (currencies_list usdeurnok)"
    "''nok'' \<in> set (currencies_list usdeurnok)" "length ''usd'' = 3" "length ''eur'' = 3"
    by (simp_all add: usdeurnok_def)
  have r: "rate usdeurnok (''usd'' @ ''eur'') = Inr (Dual 0.9 [(''fx_usdeur'', 1)])"
    "rate usdeurnok (''eur'' @ ''nok'') = Inr (Dual 8.5 [(''fx_usdeur'', 0), (''fx_eurnok'', 1)])"
    "rate usdeurnok (''usd'' @ ''nok'') = Inr (Dual 7.65 [(''fx_usdeur'', 8.5), (''fx_eurnok'', 0.9)])"
    by (simp_all add: usdeurnok_def rate_def eval_defs)
  show ?thesis
    using triangular_identity [OF FXRates_init_usdeurnok c] FXRates_init_usdeurnok r
    by simp
qed

subsection \<open>C1: positions and back\<close>

text \<open>
  C1 (as stated): for every value \<open>v\<close>, \<^verbatim>\<open>convert_positions(positions(v, b), b)\<close>
  equals \<open>v\<close> in real part and in every derivative. \<^verbatim>\<open>positions\<close> returns plain floats
  and reads only the variables of \<open>v\<close> named \<^verbatim>\<open>fx_<pair>\<close>; the derivatives of the result
  are those of the cross rates, which are taken with respect to the variables that the
  stored rates carry. On the market \<^verbatim>\<open>FXRates({"usdnok": 8.0})\<close> a derivative with
  respect to \<^verbatim>\<open>v0\<close> is lost, and a derivative with respect to \<^verbatim>\<open>fx_nokusd\<close> comes back
  as one with respect to \<^verbatim>\<open>fx_usdnok\<close>. On the market whose rate is a dual in the
  variable \<^verbatim>\<open>z\<close>, a derivative with respect to \<^verbatim>\<open>fx_usdnok\<close> comes back as one with
  respect to \<^verbatim>\<open>z\<close>. And in double precision the products and quotients are rounded: on
  the market \<^verbatim>\<open>FXRates({"usdeur": 1.5, "usdnok": 75.0})\<close> the value
  \<^verbatim>\<open>Dual(0.0, "fx_usdnok", [3.0])\<close> gives the positions \<open>225, 0, - 16875\<close>, which convert
  back to the real part \<open>- 1 / 2 ^ 45\<close> where the value has real part \<open>0\<close>.
\<close>

theorem positions_round_trip_counterexample:
  "positions (\<lambda>x. x) usdnok (PyDual (Dual 100 [(''v0'', 1)])) (Some ''usd'') = Inr [100, 0] \<and>
   convert_positions (\<lambda>x. x) usdnok [100, 0] (Some ''usd'') = Inr (Dual 100 [(''fx_usdnok'', 0)]) \<and>
   \<not> dual_eq (Dual 100 [(''fx_usdnok'', 0)]) (Dual 100 [(''v0'', 1)]) \<and>
   positions (\<lambda>x. x) usdnok (PyDual (Dual 0 [(''fx_nokusd'', 1)])) (Some ''usd'') = Inr [- (1 / 8), 1] \<and>
   convert_positions (\<lambda>x. x) usdnok [- (1 / 8), 1] (Some ''usd'') = Inr (Dual 0 [(''fx_usdnok'', - (1 / 64))]) \<and>
   \<not> dual_eq (Dual 0 [(''fx_usdnok'', - (1 / 64))]) (Dual 0 [(''fx_nokusd'', 1)]) \<and>
   FXRates_init usdnok_z_solver ''usd'' [(''usdnok'', PyDual (Dual 8 [(''z'', 1)]))] None None
     = Inr usdnok_z \<and>
   positions (\<lambda>x. x) usdnok_z (PyDual (Dual 0 [(''fx_usdnok'', 1)])) (Some ''usd'') = Inr [8, - 64] \<and>
   convert_positions (\<lambda>x. x) usdnok_z [8, - 64] (Some ''usd'') = Inr (Dual 0 [(''z'', 1)]) \<and>
   \<not> dual_eq (Dual 0 [(''z'', 1)]) (Dual 0 [(''fx_usdnok'', 1)]) \<and>
   FXRates_init usdeur_usdnok_solver ''usd'' [(''usdeur'', PyFloat 1.5), (''usdnok'', PyFloat 75)]
     None None = Inr usdeur_usdnok \<and>
   positions fl (in_doubles usdeur_usdnok) (PyDual (Dual 0 [(''fx_usdnok'', 3)])) (Some ''usd'')
     = Inr [225, 0, - 16875] \<and>
   map_sum id dreal (convert_positions fl (in_doubles usdeur_usdnok) [225, 0, - 16875] (Some ''usd''))
     = Inr (- (1 / 2 ^ 45)) \<and>
   dreal (to_dual (PyDual (Dual 0 [(''fx_usdnok'', 3)]))) = 0 \<and>
   map_sum id dreal (convert_positions fl (in_doubles usdeur_usdnok) [225, 0, - 16875] (Some ''usd''))
     \<noteq> Inr (dreal (to_dual (PyDual (Dual 0 [(''fx_usdnok'', 3)]))))"
proof -
  have a: "positions (\<lambda>x. x) usdnok (PyDual (Dual 100 [(''v0'', 1)])) (Some ''usd'') = Inr [100, 0] \<and>
   convert_positions (\<lambda>x. x) usdnok [100, 0] (Some ''usd'') = Inr (Dual 100 [(''fx_usdnok'', 0)]) \<and>
   \<not> dual_eq (Dual 100 [(''fx_usdnok'', 0)]) (Dual 100 [(''v0'', 1)]) \<and>
   positions (\<lambda>x. x) usdnok (PyDual (Dual 0 [(''fx_nokusd'', 1)])) (Some ''usd'') = Inr [- (1 / 8), 1] \<and>
   convert_positions (\<lambda>x. x) usdnok [- (1 / 8), 1] (Some ''usd'') = Inr (Dual 0 [(''fx_usdnok'', - (1 / 64))]) \<and>
   \<not> dual_eq (Dual 0 [(''fx_usdnok'', - (1 / 64))]) (Dual 0 [(''fx_nokusd'', 1)])"
    by (simp add: positions_def get_positions_from_delta_def np_iadd_def convert_positions_def
        np_broadcast_def np_sum_def usdnok_def eval_defs)
  have z: "positions (\<lambda>x. x) usdnok_z (PyDual (Dual 0 [(''fx_usdnok'', 1)])) (Some ''usd'') = Inr [8, - 64] \<and>
   convert_positions (\<lambda>x. x) usdnok_z [8, - 64] (Some ''usd'') = Inr (Dual 0 [(''z'', 1)]) \<and>
   \<not> dual_eq (Dual 0 [(''z'', 1)]) (Dual 0 [(''fx_usdnok'', 1)])"
    by (simp add: positions_def get_positions_from_delta_def np_iadd_def convert_positions_def
        np_broadcast_def np_sum_def usdnok_z_def eval_defs)
  have v: "dreal (to_dual (PyDual (Dual 0 [(''fx_usdnok'', 3)]))) = 0"
    by (simp add: to_dual_def)
  show ?thesis
    using a z v FXRates_init_usdnok_z FXRates_init_usdeur_usdnok positions_in_doubles
      convert_positions_in_doubles
    by simp
qed

text \<open>
  C1 (amended): the round trip gives the value back up to the rounding of the
  arithmetic, for the values that are expressed in the pairs of the object. For a
  constructed \<^verbatim>\<open>FXRates\<close> whose stored rate of each pair \<open>p\<close> has derivative one with
  respect to \<^verbatim>\<open>fx_<p>\<close> and zero with respect to every other variable (as it has when
  the object is built from plain numbers, lemma \<open>plain_rates_own\<close>), a
  base \<open>b\<close> of its currency list and a value (float or dual) whose variables are distinct
  and each of the form \<^verbatim>\<open>fx_<p>\<close> for a pair \<open>p\<close> of the object: in exact arithmetic
  \<^verbatim>\<open>positions\<close> and then \<^verbatim>\<open>convert_positions\<close> succeed and return a dual equal to the
  value, in real part and in every derivative.
\<close>

theorem positions_round_trip:
  assumes spec: "dual_solve_spec solve"
    and init: "FXRates_init solve dflt items st bs = Inr fxr"
    and own: "\<forall>p \<in> set (pairs fxr). \<exists>r. getitem (fx_rates fxr) p = Inr r \<and>
                (\<forall>k. gradient r k = (if k = ''fx_'' @ p then 1 else 0))"
    and b: "b \<in> set (currencies_list fxr)"
    and dist: "distinct (dvars (to_dual val))"
    and vars: "\<forall>k \<in> set (dvars (to_dual val)). \<exists>p \<in> set (pairs fxr). k = ''fx_'' @ p"
  shows "\<exists>P e. positions (\<lambda>x. x) fxr val (Some b) = Inr P \<and>
           convert_positions (\<lambda>x. x) fxr P (Some b) = Inr e \<and> dual_eq e (to_dual val)"
proof -
  let ?n = "q fxr"
  let ?cl = "currencies_list fxr"
  let ?j = "first_index ?cl b"
  let ?X = "fx_array fxr"
  let ?x = "fx_vector fxr"
  let ?v = "to_dual val"
  let ?cv = "map (\<lambda>row. dreal (row ! ?j)) ?X"
  let ?cg = "\<lambda>k0. map (\<lambda>row. gradient (row ! ?j) k0) ?X"
  let ?seed = "map (\<lambda>ccy. if ccy \<noteq> b then 0 else dreal ?v) ?cl"
  note fi = FXRates_init_Inr [OF init]
  note g = constructed_getitem [OF init b]
  note qt = constructed_fx_array(4) [OF init]
  have lenX: "length ?X = ?n" using constructed_fx_array(1) [OF init] by (simp add: rect_def)
  have lcv: "length ?cv = ?n" and lcg: "length (?cg k0) = ?n" for k0
    using lenX by simp_all
  have cvi: "?cv ! i = dreal (?X ! i ! ?j)" and cgi: "?cg k0 ! i = gradient (?X ! i ! ?j) k0"
    if "i < ?n" for i k0
    using that lenX by simp_all
  have dcl: "distinct ?cl" and lcl: "length ?cl = ?n"
    by (simp_all add: fi(4) fi(5) init_currencies_list_def)
  have seed: "?seed = (replicate ?n 0)[?j := dreal ?v]"
    using seed_sparse [OF dcl b, of "dreal ?v"] lcl by simp
  have lseed: "length ?seed = ?n" using lcl by simp
  have pos: "positions (\<lambda>x. x) fxr val (Some b) = positions_loop (\<lambda>x. x) fxr ?v b (dvars ?v) ?seed"
    by (simp add: positions_def Let_def g(3))
  have contrib: "take 3 k = ''fx_'' \<and>
           (\<exists>Q. get_positions_from_delta (\<lambda>x. x) fxr (gradient ?v k) (drop 3 k) b = Inr Q \<and>
                length Q = ?n \<and> weighted ?cv Q = gradient ?v k * 0 \<and>
                (\<forall>k0. weighted (?cg k0) Q = gradient ?v k * (if k0 = k then 1 else 0)))"
    if k: "k \<in> set (dvars ?v)" for k
  proof -
    from vars k obtain p where p: "p \<in> set (pairs fxr)" and kp: "k = ''fx_'' @ p" by blast
    from get_positions_from_delta_constructed [OF spec init b p, of "gradient ?v k"]
    obtain d f r where dn: "d < ?n" and fn: "f < ?n" and neq: "d \<noteq> f"
      and r: "getitem (fx_rates fxr) p = Inr r" and eq: "dual_eq (?X ! d ! f) r"
      and Q: "get_positions_from_delta (\<lambda>x. x) fxr (gradient ?v k) p b =
             Inr ((replicate ?n 0)
                    [d := gradient ?v k * dreal (?X ! ?j ! f),
                     f := - (gradient ?v k * dreal (?X ! ?j ! f)) / dreal (?X ! f ! d)])"
      by blast
    let ?Q = "(replicate ?n 0)
                    [d := gradient ?v k * dreal (?X ! ?j ! f),
                     f := - (gradient ?v k * dreal (?X ! ?j ! f)) / dreal (?X ! f ! d)]"
    from own p obtain r' where r': "getitem (fx_rates fxr) p = Inr r'"
      and g': "\<And>k0. gradient r' k0 = (if k0 = ''fx_'' @ p then 1 else 0)"
      by blast
    have rr: "r' = r" using r r' by simp
    have gr: "gradient (?X ! d ! f) k0 = (if k0 = k then 1 else 0)" for k0
      using eq g' [of k0] by (simp add: dual_eq_iff rr kp)
    have wv: "weighted ?cv ?Q = gradient ?v k * 0"
      unfolding weighted_sparse [OF lcv dn fn neq] cvi [OF dn] cvi [OF fn]
      using position_value_zero [OF qt [OF g(2) fn] qt [OF dn g(2)] qt [OF fn dn] qt [OF fn g(2)]]
      by simp
    have wg: "weighted (?cg k0) ?Q = gradient ?v k * (if k0 = k then 1 else 0)" for k0
      unfolding weighted_sparse [OF lcg dn fn neq] cgi [OF dn] cgi [OF fn]
      using position_gradient [OF qt [OF g(2) fn] qt [OF dn g(2)] qt [OF fn dn] qt [OF fn g(2)]
          qt [OF dn fn], of "gradient ?v k" k0]
      by (simp add: gr)
    have tk: "take 3 k = ''fx_''" and dk: "drop 3 k = p" by (simp_all add: kp)
    have Q': "get_positions_from_delta (\<lambda>x. x) fxr (gradient ?v k) (drop 3 k) b = Inr ?Q"
      using Q by (simp only: dk)
    have lQ: "length ?Q = ?n" by simp
    from tk Q' lQ wv wg show ?thesis by blast
  qed
  have hv: "take 3 k = ''fx_'' \<and>
           (\<exists>Q. get_positions_from_delta (\<lambda>x. x) fxr (gradient ?v k) (drop 3 k) b = Inr Q \<and>
                length Q = ?n \<and> weighted ?cv Q = gradient ?v k * 0)"
    if "k \<in> set (dvars ?v)" for k
    using contrib [OF that] by blast
  have hg: "take 3 k = ''fx_'' \<and>
           (\<exists>Q. get_positions_from_delta (\<lambda>x. x) fxr (gradient ?v k) (drop 3 k) b = Inr Q \<and>
                length Q = ?n \<and>
                weighted (?cg k0) Q = gradient ?v k * (if k0 = k then 1 else 0))"
    if "k \<in> set (dvars ?v)" for k k0
    using contrib [OF that] by blast
  from positions_loop_weighted [OF lcv lseed hv] obtain P where
    P: "positions_loop (\<lambda>x. x) fxr ?v b (dvars ?v) ?seed = Inr P" and lP: "length P = ?n"
    and wP: "weighted ?cv P = weighted ?cv ?seed + (\<Sum>k\<leftarrow>dvars ?v. gradient ?v k * 0)"
    by blast
  have gP: "weighted (?cg k0) P = weighted (?cg k0) ?seed
              + (\<Sum>k\<leftarrow>dvars ?v. gradient ?v k * (if k0 = k then 1 else 0))" for k0
  proof -
    from positions_loop_weighted [OF lcg lseed hg, of "dvars ?v" k0] obtain P' where
      P': "positions_loop (\<lambda>x. x) fxr ?v b (dvars ?v) ?seed = Inr P'"
      and w: "weighted (?cg k0) P' = weighted (?cg k0) ?seed
              + (\<Sum>k\<leftarrow>dvars ?v. gradient ?v k * (if k0 = k then 1 else 0))"
      by blast
    from P P' have "P' = P" by simp
    with w show ?thesis by simp
  qed
  have diag: "dreal (?X ! ?j ! ?j) = 1" "gradient (?X ! ?j ! ?j) k0 = 0" for k0
    using qt [OF g(2) g(2)] by (simp_all add: is_quotient_def power2_eq_square)
  have sv: "weighted ?cv ?seed = dreal ?v"
    unfolding seed weighted_single [OF lcv g(2)] cvi [OF g(2)] by (simp add: diag)
  have sg: "weighted (?cg k0) ?seed = 0" for k0
    unfolding seed weighted_single [OF lcg g(2)] cgi [OF g(2)] by (simp add: diag)
  from convert_positions_constructed [OF init b lP] obtain e where
    e: "convert_positions (\<lambda>x. x) fxr P (Some b) = Inr e" and ev: "dreal e = weighted ?cv P"
    and eg: "\<And>k. gradient e k = weighted (?cg k) P"
    by blast
  have "dreal e = dreal ?v" using ev wP sv by simp
  moreover have "gradient e k0 = gradient ?v k0" for k0
    using eg [of k0] gP [of k0] sg [of k0] sum_list_indicator [OF dist, of "gradient ?v" k0]
    by (simp add: gradient_notin)
  ultimately have "dual_eq e ?v" by (simp add: dual_eq_iff)
  with pos P e show ?thesis by (simp only: sum.inject) blast
qed

theorem positions_round_trip_witness:
  "FXRates_init usdnok_solver ''usd'' [(''usdnok'', PyFloat 8)] None None = Inr usdnok \<and>
   positions (\<lambda>x. x) usdnok (PyDual (Dual 125000 [(''fx_usdnok'', - 15625)])) (Some ''usd'')
     = Inr [0, 1000000] \<and>
   convert_positions (\<lambda>x. x) usdnok [0, 1000000] (Some ''usd'')
     = Inr (Dual 125000 [(''fx_usdnok'', - 15625)]) \<and>
   dual_eq (Dual 125000 [(''fx_usdnok'', - 15625)]) (to_dual (PyDual (Dual 125000 [(''fx_usdnok'', - 15625)])))"
proof -
  let ?val = "PyDual (Dual 125000 [(''fx_usdnok'', - 15625)])"
  have own: "\<forall>p \<in> set (pairs usdnok). \<exists>r. getitem (fx_rates usdnok) p = Inr r \<and>
                (\<forall>k. gradient r k = (if k = ''fx_'' @ p then 1 else 0))"
    by (simp add: usdnok_def getitem_def gradient_def)
  have b: "''usd'' \<in> set (currencies_list usdnok)" by (simp add: usdnok_def)
  have dist: "distinct (dvars (to_dual ?val))" by (simp add: to_dual_def dvars_def)
  have vars: "\<forall>k \<in> set (dvars (to_dual ?val)). \<exists>p \<in> set (pairs usdnok). k = ''fx_'' @ p"
    by (simp add: to_dual_def dvars_def usdnok_def)
  have p: "positions (\<lambda>x. x) usdnok ?val (Some ''usd'') = Inr [0, 1000000]"
    by (simp add: positions_def get_positions_from_delta_def np_iadd_def usdnok_def eval_defs)
  have c: "convert_positions (\<lambda>x. x) usdnok [0, 1000000] (Some ''usd'')
             = Inr (Dual 125000 [(''fx_usdnok'', - 15625)])"
    by (simp add: convert_positions_def np_broadcast_def np_sum_def usdnok_def eval_defs)
  show ?thesis
    using positions_round_trip [OF usdnok_solver_spec FXRates_init_usdnok own b dist vars]
      FXRates_init_usdnok p c
    by simp
qed

subsection \<open>C4: the immediate rates of FXForwards\<close>



end
